theory Spec2Isabelle
  imports Main "HOL-Library.Word" "HOL-Library.Sublist"
begin

unbundle bit_operations_syntax

section \<open>Byte arrays\<close>

text \<open>
  A \<open>QByteArray\<close> is a list of 8-bit words. The accessors follow Qt 5:
  \<^item> \<open>at(i)\<close> asserts that the index is in range: out of range is \<open>None\<close>;
  \<^item> \<open>operator[]\<close> on the non-const static \<open>BUFFER\<close> yields a \<open>QByteRef\<close>, which
    reads as 0 past the end;
  \<^item> \<open>mid(pos, len)\<close> takes \<open>len\<close> bytes from \<open>pos\<close>, clipped to the array;
  \<^item> \<open>remove(pos, len)\<close> does nothing when \<open>len \<le> 0\<close> or \<open>pos\<close> is past the end,
    and is clipped to the array otherwise;
  \<^item> \<open>insert(i, c)\<close> is only called with an index inside the array.
  A \<open>char\<close> converted to \<open>int\<close> is read as signed (\<open>sint\<close>), as on the desktop
  targets of the project.
\<close>

type_synonym byte = "8 word"
type_synonym QByteArray = "byte list"

definition byte_at :: "QByteArray \<Rightarrow> nat \<Rightarrow> byte option" where
  "byte_at a i = (if i < length a then Some (a ! i) else None)"

definition byte_ref :: "QByteArray \<Rightarrow> nat \<Rightarrow> byte" where
  "byte_ref a i = (if i < length a then a ! i else 0)"

definition mid :: "QByteArray \<Rightarrow> nat \<Rightarrow> nat \<Rightarrow> QByteArray" where
  "mid a pos len = take len (drop pos a)"

definition remove_bytes :: "nat \<Rightarrow> int \<Rightarrow> QByteArray \<Rightarrow> QByteArray" where
  "remove_bytes pos len a =
     (if len \<le> 0 \<or> length a \<le> pos then a else take pos a @ drop (pos + nat len) a)"

definition insert_byte :: "nat \<Rightarrow> byte \<Rightarrow> QByteArray \<Rightarrow> QByteArray" where
  "insert_byte i c a = take i a @ c # drop i a"

text \<open>C++ integer division truncates towards zero.\<close>

definition c_div :: "int \<Rightarrow> int \<Rightarrow> int" where
  "c_div a b = sgn a * sgn b * (\<bar>a\<bar> div \<bar>b\<bar>)"

section \<open>Protocol constants (SM\_6210.cpp, RFID\_Global.h)\<close>

definition HEADER_START_CODE :: byte where "HEADER_START_CODE = 0xa0"
definition HEADER_RESULT_CODE :: byte where "HEADER_RESULT_CODE = 0xe4"
definition HEADER_RESPONSE_CODE :: byte where "HEADER_RESPONSE_CODE = 0xe0"
definition COMM_RS232 :: byte where "COMM_RS232 = 0x03"
definition DEV_STOP_SEARCH :: byte where "DEV_STOP_SEARCH = 0xa8"
definition DEV_WRITE_TAG_MW :: byte where "DEV_WRITE_TAG_MW = 0xab"
definition DEV_GET_SINGLE_PARAM :: byte where "DEV_GET_SINGLE_PARAM = 0x61"
definition DEV_READ_SINGLE_TAG :: byte where "DEV_READ_SINGLE_TAG = 0x82"
definition DEV_READ_TAG_DATA :: byte where "DEV_READ_TAG_DATA = 0x80"
definition CRP_ADD_USERCODE :: byte where "CRP_ADD_USERCODE = 0x64"

definition RFU_LABEL :: "byte \<times> byte" where "RFU_LABEL = (0x00, 0x00)"
definition EPC_LABEL :: "byte \<times> byte" where "EPC_LABEL = (0x00, 0x01)"
definition TID_LABEL :: "byte \<times> byte" where "TID_LABEL = (0x00, 0x02)"
definition USR_LABEL :: "byte \<times> byte" where "USR_LABEL = (0x00, 0x03)"

definition RFID_NUM_KEYS :: nat where "RFID_NUM_KEYS = 2"
definition RFID_RFU_LENGTH :: nat where "RFID_RFU_LENGTH = 8"
definition RFID_EPC_LENGTH :: nat where "RFID_EPC_LENGTH = 12"
definition RFID_USER_LENGTH :: nat where "RFID_USER_LENGTH = 64"
definition RFID_NUM_USER_DATAGRAMS :: nat where "RFID_NUM_USER_DATAGRAMS = 4"
definition RFID_MAX_BUFFER_SIZE :: nat where "RFID_MAX_BUFFER_SIZE = 1024 * 16"

text \<open>
  \<open>Checksum\<close>: the loop adds every byte to a \<open>quint8\<close> accumulator, which wraps, and
  the result is \<open>(~checksum) + 1\<close> converted back to \<open>quint8\<close>.
\<close>

definition Checksum :: "QByteArray \<Rightarrow> byte" where
  "Checksum data = NOT (foldl (\<lambda>checksum b. checksum + b) 0 data) + 1"

section \<open>State\<close>

text \<open>
  The tag record of RFID\_Global.h. Tags are heap objects handled through pointers, and
  the history and the current tag alias them, so the aggregator keeps a store of tags
  (\<open>heap\<close>, an address is an index into it) and \<open>new RFID_Tag\<close> extends the store.
  \<open>free\<close> of a temporary that nothing refers to any more leaves the store alone.
\<close>

record RFID_Tag =
  epc :: QByteArray
  tid :: QByteArray
  rfu :: QByteArray
  keys :: "QByteArray list"
  usr :: "QByteArray list"

definition new_RFID_Tag :: RFID_Tag where
  "new_RFID_Tag = \<lparr>epc = [], tid = [], rfu = [],
     keys = replicate RFID_NUM_KEYS [], usr = replicate RFID_NUM_USER_DATAGRAMS []\<rparr>"

datatype rfid_signal = tagUpdated | readerChanged | tagCountChanged | currentTagChanged

datatype reader_signal =
  tidFound QByteArray | epcFound QByteArray | rfuFound QByteArray | usrFound QByteArray int

datatype error = AtOutOfRange | DatagramAssert | ChoppedAssert

text \<open>
  The three assertions a run can stop at: \<open>QByteArray::at\<close> with an index out of range,
  the \<open>Q_ASSERT\<close> of \<open>RFID::onUsrFound\<close> on the datagram index, and
  \<open>QByteArray::chopped\<close> with a count that is negative or larger than the array.

  The serial manager: \<open>port_accepts k\<close> is what the \<open>k\<close>-th call of
  \<open>QSerialPort::write\<close> returns (the environment decides), and \<open>writes\<close> logs every
  call of \<open>RFID_SerialManager::writeData\<close> that returned, with the submitted bytes and
  its result.
\<close>

record RFID_SerialManager =
  connected :: bool
  baudRate :: int
  port_accepts :: "nat \<Rightarrow> int"
  writes :: "(QByteArray \<times> int) list"

text \<open>
  The aggregator (class \<open>RFID\<close>) together with the \<open>m_currentTag\<close> pointer of the
  reader base class, which it reads and writes through \<open>reader()\<close>. \<open>m_reader\<close> says
  whether a reader is set; \<open>watchdog_starts\<close> counts the calls of \<open>m_watchdog.start()\<close>.
\<close>

record RFID =
  heap :: "RFID_Tag list"
  m_tags :: "nat list"
  m_currentTag :: "nat option"
  m_reader :: bool
  watchdog_starts :: nat
  rfid_signals :: "rfid_signal list"

text \<open>
  The driver with its static \<open>BUFFER\<close>, the singletons it talks to, and the log of the
  signals it has emitted. The aggregator's slots are connected to the reader's signals
  (\<open>RFID::setReader\<close>), so an emitted signal also runs the slot.
\<close>

record SM_6210 =
  BUFFER :: QByteArray
  m_selector :: int
  m_shitCount :: byte
  m_userStartAddress :: byte
  reader_signals :: "reader_signal list"
  sm :: RFID_SerialManager
  rfid :: RFID

section \<open>Serial manager\<close>

text \<open>
  \<open>RFID_SerialManager::writeData\<close>. On an open port it writes, emits \<open>dataSent\<close> with
  \<open>data.chopped(data.length() - bytes)\<close> and returns the count; \<open>chopped(len)\<close> asserts
  \<open>0 \<le> len \<le> size()\<close>, so a count that is negative or larger than the data stops the
  run there. Without a connection it returns -1 and touches nothing else.
\<close>

definition chopped :: "QByteArray \<Rightarrow> int \<Rightarrow> error + QByteArray" where
  "chopped a len =
     (if len < 0 \<or> len > int (length a) then Inl ChoppedAssert
      else Inr (take (length a - nat len) a))"

definition sm_writeData :: "QByteArray \<Rightarrow> RFID_SerialManager \<Rightarrow> error + (int \<times> RFID_SerialManager)" where
  "sm_writeData data s =
     (if connected s then
        (let bytes = port_accepts s (length (writes s))
         in case chopped data (int (length data) - bytes) of
              Inl e \<Rightarrow> Inl e
            | Inr sent \<Rightarrow> Inr (bytes, s\<lparr>writes := writes s @ [(data, bytes)]\<rparr>))
      else Inr (- 1, s\<lparr>writes := writes s @ [(data, - 1)]\<rparr>))"

definition send :: "QByteArray \<Rightarrow> SM_6210 \<Rightarrow> error + SM_6210" where
  "send data st =
     (case sm_writeData data (sm st) of
        Inl e \<Rightarrow> Inl e
      | Inr (bytes, s) \<Rightarrow> Inr (st\<lparr>sm := s\<rparr>))"

section \<open>Driver: requests\<close>

definition append_checksum :: "QByteArray \<Rightarrow> QByteArray" where
  "append_checksum data = data @ [Checksum data]"

definition stop_packet :: QByteArray where
  "stop_packet = append_checksum [HEADER_START_CODE, COMM_RS232, DEV_STOP_SEARCH, 0x00]"

definition single_param_packet :: QByteArray where
  "single_param_packet =
     append_checksum [HEADER_START_CODE, 0x05, DEV_GET_SINGLE_PARAM, 0x00, 0x00, CRP_ADD_USERCODE]"

definition ack_packet :: QByteArray where
  "ack_packet = append_checksum [HEADER_START_CODE, COMM_RS232, DEV_READ_SINGLE_TAG, 0x00]"

definition read_packet :: "byte \<times> byte \<Rightarrow> byte \<Rightarrow> byte \<Rightarrow> QByteArray" where
  "read_packet label startAddress dataLength =
     append_checksum [HEADER_START_CODE, 0x06, DEV_READ_TAG_DATA, fst label, snd label,
                      startAddress, dataLength]"

definition readEpc :: "SM_6210 \<Rightarrow> error + SM_6210" where
  "readEpc st = send (read_packet EPC_LABEL 2 6) st"

definition readTid :: "SM_6210 \<Rightarrow> error + SM_6210" where
  "readTid st = send (read_packet TID_LABEL 0 6) st"

definition readRfu :: "SM_6210 \<Rightarrow> error + SM_6210" where
  "readRfu st = send (read_packet RFU_LABEL 0 4) st"

definition readUsr :: "SM_6210 \<Rightarrow> error + SM_6210" where
  "readUsr st =
     (let st1 = (if m_userStartAddress st > 24 then st\<lparr>m_userStartAddress := 0\<rparr> else st);
          dataLength = 8;
          startAddress = m_userStartAddress st1
      in case send (read_packet USR_LABEL startAddress dataLength) st1 of
           Inl e \<Rightarrow> Inl e
         | Inr st2 \<Rightarrow> Inr (st2\<lparr>m_userStartAddress := m_userStartAddress st2 + dataLength\<rparr>))"

definition scan :: "SM_6210 \<Rightarrow> error + SM_6210" where
  "scan st =
     (if m_currentTag (rfid st) = None then
        (let st1 = st\<lparr>m_selector := 0\<rparr>
         in if m_shitCount st1 > 10 then send stop_packet (st1\<lparr>m_shitCount := 0\<rparr>)
            else send single_param_packet st1)
      else
        (case (if m_selector st = 0 then readTid st
               else if m_selector st = 1 then readRfu st
               else if m_selector st = 2 then readUsr st
               else (case readEpc st of
                       Inl e \<Rightarrow> Inl e
                     | Inr st1 \<Rightarrow> Inr (st1\<lparr>m_selector := - 1\<rparr>))) of
           Inl e \<Rightarrow> Inl e
         | Inr st1 \<Rightarrow> Inr (st1\<lparr>m_selector := m_selector st1 + 1\<rparr>)))"

definition loaded :: "SM_6210 \<Rightarrow> bool" where
  "loaded st = (if connected (sm st) then baudRate (sm st) = 9600 else False)"

section \<open>Driver: writing\<close>

definition write_packet :: "QByteArray \<Rightarrow> byte \<times> byte \<Rightarrow> byte \<Rightarrow> byte \<Rightarrow> QByteArray" where
  "write_packet data label startAddress len =
     (let packet = [HEADER_START_CODE, DEV_WRITE_TAG_MW, fst label, snd label, startAddress, len]
                   @ data;
          packet = insert_byte 1 (of_nat (length packet)) packet
      in append_checksum packet)"

fun write_loop ::
  "nat \<Rightarrow> QByteArray \<Rightarrow> bool \<times> RFID_SerialManager \<Rightarrow> error + (bool \<times> RFID_SerialManager)" where
  "write_loop 0 packet (ok, s) = Inr (ok, s)"
| "write_loop (Suc n) packet (ok, s) =
     (case sm_writeData packet s of
        Inl e \<Rightarrow> Inl e
      | Inr (bytes, s') \<Rightarrow> write_loop n packet (ok \<and> bytes = int (length packet), s'))"

definition writeData ::
  "QByteArray \<Rightarrow> byte \<times> byte \<Rightarrow> byte \<Rightarrow> byte \<Rightarrow> SM_6210 \<Rightarrow> error + (bool \<times> SM_6210)" where
  "writeData data label startAddress len st =
     (case write_loop 10 (write_packet data label startAddress len) (True, sm st) of
        Inl e \<Rightarrow> Inl e
      | Inr (ok, s') \<Rightarrow> Inr (ok, st\<lparr>sm := s'\<rparr>))"

definition writeEpc :: "QByteArray \<Rightarrow> SM_6210 \<Rightarrow> error + (bool \<times> SM_6210)" where
  "writeEpc e st =
     (if m_currentTag (rfid st) \<noteq> None then writeData e EPC_LABEL 2 6 st else Inr (False, st))"

definition writeRfu :: "QByteArray \<Rightarrow> SM_6210 \<Rightarrow> error + (bool \<times> SM_6210)" where
  "writeRfu r st =
     (if m_currentTag (rfid st) \<noteq> None then writeData r RFU_LABEL 0 4 st else Inr (False, st))"

definition writeUserData :: "QByteArray \<Rightarrow> SM_6210 \<Rightarrow> error + (bool \<times> SM_6210)" where
  "writeUserData userData st =
     (if m_currentTag (rfid st) \<noteq> None then
        (case writeData (mid userData 0 16) USR_LABEL 0 8 st of
           Inl e \<Rightarrow> Inl e
         | Inr (ok1, st1) \<Rightarrow>
        (case writeData (mid userData 16 32) USR_LABEL 8 8 st1 of
           Inl e \<Rightarrow> Inl e
         | Inr (ok2, st2) \<Rightarrow>
        (case writeData (mid userData 32 48) USR_LABEL 16 8 st2 of
           Inl e \<Rightarrow> Inl e
         | Inr (ok3, st3) \<Rightarrow>
        (case writeData (mid userData 48 64) USR_LABEL 24 8 st3 of
           Inl e \<Rightarrow> Inl e
         | Inr (ok4, st4) \<Rightarrow> Inr (((True \<and> ok1) \<and> ok2) \<and> ok3 \<and> ok4, st4)))))
      else Inr (False, st))"

text \<open>
  The facade \<open>RFID::writeEpc\<close> and the window's handler \<open>MainWindow::writeEpcData\<close>
  from the point where the hex field has been decoded into \<open>epc\<close>: the handler pads
  with zeroes, refuses what is too long (\<open>None\<close>: nothing is written) and calls the facade.
\<close>

definition readerAccessible :: "SM_6210 \<Rightarrow> bool" where
  "readerAccessible st = (if m_reader (rfid st) then loaded st else False)"

definition RFID_writeEpc :: "QByteArray \<Rightarrow> SM_6210 \<Rightarrow> error + (bool \<times> SM_6210)" where
  "RFID_writeEpc e st = (if readerAccessible st then writeEpc e st else Inr (False, st))"

definition RFID_writeRfu :: "QByteArray \<Rightarrow> SM_6210 \<Rightarrow> error + (bool \<times> SM_6210)" where
  "RFID_writeRfu r st = (if readerAccessible st then writeRfu r st else Inr (False, st))"

definition RFID_writeUserData :: "QByteArray \<Rightarrow> SM_6210 \<Rightarrow> error + (bool \<times> SM_6210)" where
  "RFID_writeUserData u st = (if readerAccessible st then writeUserData u st else Inr (False, st))"

function pad_zeroes :: "nat \<Rightarrow> QByteArray \<Rightarrow> QByteArray" where
  "pad_zeroes n a = (if length a < n then pad_zeroes n (a @ [0x00]) else a)"
  by pat_completeness auto
termination
  by (relation "measure (\<lambda>(n, a). n - length a)") auto

definition writeEpcData ::
  "QByteArray \<Rightarrow> SM_6210 \<Rightarrow> (error + (bool \<times> SM_6210)) option" where
  "writeEpcData e st =
     (let e1 = pad_zeroes RFID_EPC_LENGTH e
      in if length e1 > RFID_EPC_LENGTH then None else Some (RFID_writeEpc e1 st))"

definition writeRfuData ::
  "QByteArray \<Rightarrow> SM_6210 \<Rightarrow> (error + (bool \<times> SM_6210)) option" where
  "writeRfuData r st =
     (let r1 = pad_zeroes RFID_RFU_LENGTH r
      in if length r1 > RFID_RFU_LENGTH then None else Some (RFID_writeRfu r1 st))"

definition MainWindow_writeUserData ::
  "QByteArray \<Rightarrow> SM_6210 \<Rightarrow> (error + (bool \<times> SM_6210)) option" where
  "MainWindow_writeUserData u st =
     (let u1 = pad_zeroes RFID_USER_LENGTH u
      in if length u1 > RFID_USER_LENGTH then None else Some (RFID_writeUserData u1 st))"

section \<open>Aggregator (class RFID)\<close>

text \<open>
  \<open>updateTagData\<close> takes a pointer to a field of a tag: here the tag's address and the
  field's getter and setter.
\<close>

definition updateTagData ::
  "(RFID_Tag \<Rightarrow> QByteArray) \<Rightarrow> (QByteArray \<Rightarrow> RFID_Tag \<Rightarrow> RFID_Tag) \<Rightarrow> nat \<Rightarrow> QByteArray \<Rightarrow> RFID \<Rightarrow> RFID" where
  "updateTagData get put dest src r =
     (if src \<noteq> [] \<and> get (heap r ! dest) \<noteq> src
      then r\<lparr>heap := (heap r)[dest := put src (heap r ! dest)],
             rfid_signals := rfid_signals r @ [tagUpdated]\<rparr>
      else r)"

definition put_epc :: "QByteArray \<Rightarrow> RFID_Tag \<Rightarrow> RFID_Tag" where
  "put_epc v t = t\<lparr>epc := v\<rparr>"

definition put_tid :: "QByteArray \<Rightarrow> RFID_Tag \<Rightarrow> RFID_Tag" where
  "put_tid v t = t\<lparr>tid := v\<rparr>"

definition put_rfu :: "QByteArray \<Rightarrow> RFID_Tag \<Rightarrow> RFID_Tag" where
  "put_rfu v t = t\<lparr>rfu := v\<rparr>"

definition get_usr :: "nat \<Rightarrow> RFID_Tag \<Rightarrow> QByteArray" where
  "get_usr i t = usr t ! i"

definition put_usr :: "nat \<Rightarrow> QByteArray \<Rightarrow> RFID_Tag \<Rightarrow> RFID_Tag" where
  "put_usr i v t = t\<lparr>usr := (usr t)[i := v]\<rparr>"

definition new_tag :: "RFID_Tag \<Rightarrow> RFID \<Rightarrow> nat \<times> RFID" where
  "new_tag t r = (length (heap r), r\<lparr>heap := heap r @ [t]\<rparr>)"

definition setCurrentTag :: "nat option \<Rightarrow> RFID \<Rightarrow> RFID" where
  "setCurrentTag p r = r\<lparr>m_currentTag := p\<rparr>"

definition emit_rfid :: "rfid_signal \<Rightarrow> RFID \<Rightarrow> RFID" where
  "emit_rfid s r = r\<lparr>rfid_signals := rfid_signals r @ [s]\<rparr>"

definition watchdog_start :: "RFID \<Rightarrow> RFID" where
  "watchdog_start r = r\<lparr>watchdog_starts := Suc (watchdog_starts r)\<rparr>"

definition resetCurrentTag :: "RFID \<Rightarrow> RFID" where
  "resetCurrentTag r =
     watchdog_start (if m_reader r then emit_rfid currentTagChanged (setCurrentTag None r) else r)"

definition clearHistory :: "RFID \<Rightarrow> RFID" where
  "clearHistory r = emit_rfid tagCountChanged (resetCurrentTag (r\<lparr>m_tags := []\<rparr>))"

text \<open>The first loop of \<open>updateTagList\<close>: update the first history entry that matches.\<close>

definition copy_tag :: "nat \<Rightarrow> nat \<Rightarrow> RFID \<Rightarrow> RFID" where
  "copy_tag t tag r =
     (let r = updateTagData epc put_epc t (epc (heap r ! tag)) r;
          r = updateTagData tid put_tid t (tid (heap r ! tag)) r;
          r = updateTagData rfu put_rfu t (rfu (heap r ! tag)) r
      in fold (\<lambda>i r. updateTagData (get_usr i) (put_usr i) t (usr (heap r ! tag) ! i) r)
              [0 ..< RFID_NUM_USER_DATAGRAMS] r)"

fun merge_loop :: "nat list \<Rightarrow> nat \<Rightarrow> RFID \<Rightarrow> bool \<times> RFID" where
  "merge_loop [] tag r = (False, r)"
| "merge_loop (t # ts) tag r =
     (if epc (heap r ! t) = epc (heap r ! tag) \<or> tid (heap r ! t) = tid (heap r ! tag)
      then (True, copy_tag t tag r)
      else merge_loop ts tag r)"

text \<open>
  The cleanup loops of \<open>updateTagList\<close>. \<open>QList::removeAt\<close> ignores an index out of
  range. One body of the inner loop is \<open>cleanup_step\<close>; it returns the local \<open>tags\<close>
  with the state. \<open>cleanup\<close> runs both loops: the inner one while \<open>j < tags\<close>, then the
  next \<open>i\<close> with \<open>j = i + 1\<close>. The entry \<open>ta\<close> at \<open>i\<close> is read again at every step:
  removals happen behind \<open>i\<close>, so it is the one the source read before the inner loop.
\<close>

definition removeAt :: "nat \<Rightarrow> RFID \<Rightarrow> RFID" where
  "removeAt j r =
     (if j < length (m_tags r) then r\<lparr>m_tags := take j (m_tags r) @ drop (Suc j) (m_tags r)\<rparr>
      else r)"

definition cleanup_step :: "nat \<Rightarrow> nat \<Rightarrow> nat \<Rightarrow> RFID \<Rightarrow> nat \<times> RFID" where
  "cleanup_step ta j tags r =
     (let tb = m_tags r ! j;
          r1 = (if ta = tb then removeAt j r
                else if tid (heap r ! ta) = tid (heap r ! tb) then removeAt j r
                else r)
      in if tags \<noteq> length (m_tags r1)
         then (length (m_tags r1), emit_rfid tagCountChanged r1)
         else (tags, r1))"

function cleanup :: "nat \<Rightarrow> nat \<Rightarrow> nat \<Rightarrow> RFID \<Rightarrow> RFID" where
  "cleanup i j tags r =
     (if i < tags then
        (if j < tags then
           (case cleanup_step (m_tags r ! i) j tags r of
              (tags', r') \<Rightarrow> cleanup i (Suc j) tags' r')
         else cleanup (Suc i) (Suc (Suc i)) tags r)
      else r)"
  by pat_completeness auto
termination
  apply (relation "measures [\<lambda>(i, j, tags, r). max tags (length (m_tags r)) - i,
                             \<lambda>(i, j, tags, r). max tags (length (m_tags r)) - j]")
    apply simp
   apply (auto simp: cleanup_step_def removeAt_def emit_rfid_def Let_def split: if_splits)
  done

definition updateTagList :: "nat \<Rightarrow> RFID \<Rightarrow> RFID" where
  "updateTagList tag r =
     (let r = watchdog_start r;
          (tagFound, r) = merge_loop (m_tags r) tag r;
          r = (if \<not> tagFound then emit_rfid tagCountChanged (r\<lparr>m_tags := m_tags r @ [tag]\<rparr>)
               else r);
          r = cleanup 0 1 (length (m_tags r)) r
      in if m_currentTag r \<noteq> Some tag
         then emit_rfid currentTagChanged (setCurrentTag (Some tag) r)
         else r)"

text \<open>
  The slots. A slot only runs on a signal of the reader, so \<open>reader()\<close> is set and
  \<open>RFID::currentTag()\<close> is the reader's pointer.
\<close>

definition onEpcFound :: "QByteArray \<Rightarrow> RFID \<Rightarrow> RFID" where
  "onEpcFound e r0 =
     (case new_tag (new_RFID_Tag\<lparr>epc := e\<rparr>) r0 of (tag, r) \<Rightarrow>
        (case m_currentTag r of
           Some cur \<Rightarrow>
             if epc (heap r ! cur) \<noteq> e \<and> epc (heap r ! cur) \<noteq> []
             then updateTagList tag r
             else updateTagData epc put_epc cur e r
         | None \<Rightarrow> updateTagList tag r))"

definition onTidFound :: "QByteArray \<Rightarrow> RFID \<Rightarrow> RFID" where
  "onTidFound d r0 =
     (case new_tag (new_RFID_Tag\<lparr>tid := d\<rparr>) r0 of (tag, r) \<Rightarrow>
        (case m_currentTag r of
           Some cur \<Rightarrow>
             if tid (heap r ! cur) \<noteq> d \<and> tid (heap r ! cur) \<noteq> []
             then updateTagList tag r
             else updateTagList cur (updateTagData tid put_tid cur d r)
         | None \<Rightarrow> updateTagList tag r))"

definition onUsrFound :: "QByteArray \<Rightarrow> int \<Rightarrow> RFID \<Rightarrow> error + RFID" where
  "onUsrFound u datagram r0 =
     (if \<not> (datagram < int RFID_NUM_USER_DATAGRAMS \<and> datagram \<ge> 0) then Inl DatagramAssert
      else
        (let d = nat datagram
         in case new_tag (put_usr d u new_RFID_Tag) r0 of (tag, r) \<Rightarrow>
              Inr (case m_currentTag r of
                     Some cur \<Rightarrow>
                       if get_usr d (heap r ! cur) \<noteq> u \<and> get_usr d (heap r ! cur) \<noteq> []
                       then updateTagList tag r
                       else updateTagList cur (updateTagData (get_usr d) (put_usr d) cur u r)
                   | None \<Rightarrow> updateTagList tag r)))"

definition onRfuFound :: "QByteArray \<Rightarrow> RFID \<Rightarrow> RFID" where
  "onRfuFound f r0 =
     (case new_tag (new_RFID_Tag\<lparr>rfu := f\<rparr>) r0 of (tag, r) \<Rightarrow>
        (case m_currentTag r of
           Some cur \<Rightarrow>
             if rfu (heap r ! cur) \<noteq> f \<and> rfu (heap r ! cur) \<noteq> []
             then updateTagList tag r
             else updateTagList cur (updateTagData rfu put_rfu cur f r)
         | None \<Rightarrow> updateTagList tag r))"

section \<open>Driver: packet interpretation\<close>

text \<open>
  The header search loops: the index of the first byte equal to the header code, or the
  length of the buffer when there is none.
\<close>

fun header_shift :: "byte \<Rightarrow> QByteArray \<Rightarrow> nat" where
  "header_shift h [] = 0"
| "header_shift h (b # bs) = (if b = h then 0 else Suc (header_shift h bs))"

definition emit_reader :: "reader_signal \<Rightarrow> SM_6210 \<Rightarrow> SM_6210" where
  "emit_reader s st = st\<lparr>reader_signals := reader_signals st @ [s]\<rparr>"

definition readAckPacket :: "SM_6210 \<Rightarrow> error + (bool \<times> SM_6210)" where
  "readAckPacket st =
     (let b = BUFFER st; i = header_shift HEADER_RESPONSE_CODE b
      in if i + 8 > length b then Inr (False, st)
         else
           (let ok = (((((((True
                  \<and> byte_ref b (i + 0) = HEADER_RESPONSE_CODE)
                  \<and> byte_ref b (i + 1) = 0x06)
                  \<and> byte_ref b (i + 2) = DEV_GET_SINGLE_PARAM)
                  \<and> byte_ref b (i + 3) = 0x00)
                  \<and> byte_ref b (i + 4) = 0x00)
                  \<and> byte_ref b (i + 5) = CRP_ADD_USERCODE)
                  \<and> byte_ref b (i + 6) = 0x00)
                  \<and> byte_ref b (i + 7) = Checksum (mid b i 7)
            in if ok then
                 (case send ack_packet (st\<lparr>BUFFER := remove_bytes i 8 b\<rparr>) of
                    Inl e \<Rightarrow> Inl e
                  | Inr st1 \<Rightarrow> Inr (True, st1))
               else Inr (False, st)))"

definition readStdResult :: "SM_6210 \<Rightarrow> bool \<times> SM_6210" where
  "readStdResult st =
     (let b = BUFFER st; shift = header_shift HEADER_RESULT_CODE b
      in if shift < length b \<and> length b > shift + 1
         then (let packetSize = sint (b ! (shift + 1))
               in (True, st\<lparr>BUFFER := remove_bytes 0 (int shift + packetSize) b\<rparr>))
         else (False, st))"

definition readStdResponse :: "SM_6210 \<Rightarrow> bool \<times> SM_6210" where
  "readStdResponse st =
     (let b = BUFFER st; shift = header_shift HEADER_RESPONSE_CODE b
      in if shift < length b \<and> length b > shift + 1
         then (let packetSize = sint (b ! (shift + 1))
               in if packetSize < 6
                  then (True, st\<lparr>BUFFER := remove_bytes 0 (int shift + packetSize) b\<rparr>)
                  else (False, st))
         else (False, st))"

text \<open>The loop that copies \<open>len\<close> bytes with \<open>at\<close>, starting at \<open>p\<close>.\<close>

fun read_bytes :: "QByteArray \<Rightarrow> nat \<Rightarrow> nat \<Rightarrow> QByteArray option" where
  "read_bytes b p 0 = Some []"
| "read_bytes b p (Suc n) =
     (case byte_at b p of
        None \<Rightarrow> None
      | Some c \<Rightarrow> (case read_bytes b (Suc p) n of None \<Rightarrow> None | Some cs \<Rightarrow> Some (c # cs)))"

text \<open>
  \<open>readInformationPacket\<close> returns the data and sets \<open>*ok\<close>; the model returns
  \<open>(ok, data, startAddress, length)\<close>, the last two as the function writes them
  through the pointers a caller passes (0 where it does not get that far).
\<close>

type_synonym info = "bool \<times> QByteArray \<times> int \<times> int"

definition readInformationPacket ::
  "byte \<times> byte \<Rightarrow> bool \<Rightarrow> bool \<Rightarrow> SM_6210 \<Rightarrow> error + (info \<times> SM_6210)" where
  "readInformationPacket label singleTag verifyChecksum st =
     (let b = BUFFER st; shift = header_shift HEADER_RESPONSE_CODE b
      in if length b < shift + 1 then Inr ((False, [], 0, 0), st)
         else
           (case byte_at b (shift + 1) of
              None \<Rightarrow> Inl AtOutOfRange
            | Some sz \<Rightarrow>
                if length b > shift + unat sz then
                  (let headerOk = ((True
                         \<and> byte_ref b (shift + 3) = fst label)
                         \<and> byte_ref b (shift + 4) = snd label)
                         \<and> (if singleTag then byte_ref b (shift + 2) = DEV_READ_SINGLE_TAG
                             else byte_ref b (shift + 2) = DEV_READ_TAG_DATA)
                   in if \<not> headerOk then Inr ((False, [], 0, 0), st)
                      else
                        (let startAddress = sint (byte_ref b (shift + 5));
                             len = byte_ref b (shift + 6) * 2;
                             checksum = byte_ref b (shift + unat len + 7)
                         in if checksum = Checksum (mid b shift (unat len + 7)) \<or> \<not> verifyChecksum
                            then
                              (case read_bytes b (shift + 7) (unat len) of
                                 None \<Rightarrow> Inl AtOutOfRange
                               | Some data \<Rightarrow>
                                   Inr ((True, data, startAddress, int (unat len)),
                                        st\<lparr>BUFFER :=
                                             remove_bytes 0 (int (shift + unat len + 7)) b\<rparr>))
                            else Inr ((False, [], startAddress, int (unat len)), st)))
                else Inr ((False, [], 0, 0), st)))"

definition readTagIdPacket :: "SM_6210 \<Rightarrow> error + (bool \<times> SM_6210)" where
  "readTagIdPacket st =
     (case readInformationPacket TID_LABEL False True st of
        Inl e \<Rightarrow> Inl e
      | Inr ((success, d, _), st1) \<Rightarrow>
          if success
          then Inr (True, (emit_reader (tidFound d) st1)\<lparr>rfid := onTidFound d (rfid st1)\<rparr>)
          else Inr (False, st1))"

definition readEpcPacket :: "SM_6210 \<Rightarrow> error + (bool \<times> SM_6210)" where
  "readEpcPacket st =
     (case readInformationPacket EPC_LABEL False True st of
        Inl e \<Rightarrow> Inl e
      | Inr ((success, d, _), st1) \<Rightarrow>
          if success
          then Inr (True, (emit_reader (epcFound d) st1)\<lparr>rfid := onEpcFound d (rfid st1)\<rparr>)
          else Inr (False, st1))"

definition readRfuPacket :: "SM_6210 \<Rightarrow> error + (bool \<times> SM_6210)" where
  "readRfuPacket st =
     (case readInformationPacket RFU_LABEL False True st of
        Inl e \<Rightarrow> Inl e
      | Inr ((success, d, _), st1) \<Rightarrow>
          if success
          then Inr (True, (emit_reader (rfuFound d) st1)\<lparr>rfid := onRfuFound d (rfid st1)\<rparr>)
          else Inr (False, st1))"

definition readUsrPacket :: "SM_6210 \<Rightarrow> error + (bool \<times> SM_6210)" where
  "readUsrPacket st =
     (case readInformationPacket USR_LABEL False True st of
        Inl e \<Rightarrow> Inl e
      | Inr ((success, d, startAddress, _), st1) \<Rightarrow>
          if success then
            (let datagram = c_div startAddress 8
             in if datagram > int RFID_NUM_USER_DATAGRAMS - 1 \<or> datagram < 0
                then Inr (False, st1)
                else
                  (case onUsrFound d datagram (rfid st1) of
                     Inl e \<Rightarrow> Inl e
                   | Inr r \<Rightarrow> Inr (True, (emit_reader (usrFound d datagram) st1)\<lparr>rfid := r\<rparr>)))
          else Inr (False, st1))"

definition readEpcPacketFromScan :: "SM_6210 \<Rightarrow> error + (bool \<times> SM_6210)" where
  "readEpcPacketFromScan st =
     (case readInformationPacket EPC_LABEL True False st of
        Inl e \<Rightarrow> Inl e
      | Inr ((success, d, _), st1) \<Rightarrow>
          if success
          then Inr (True, (emit_reader (epcFound d) st1)\<lparr>rfid := onEpcFound d (rfid st1)\<rparr>)
          else Inr (False, st1))"

text \<open>
  \<open>onDataReceived\<close> tries the readers in order and returns at the first that succeeds;
  \<open>or_else\<close> is one link of that chain. A reader that fails may still have changed the
  state, which the next one sees.
\<close>

definition or_else ::
  "(SM_6210 \<Rightarrow> error + (bool \<times> SM_6210)) \<Rightarrow> (SM_6210 \<Rightarrow> error + SM_6210) \<Rightarrow> SM_6210 \<Rightarrow> error + SM_6210" where
  "or_else reader rest st =
     (case reader st of
        Inl e \<Rightarrow> Inl e
      | Inr (True, st1) \<Rightarrow> Inr st1
      | Inr (False, st1) \<Rightarrow> rest st1)"

definition packet_not_read :: "SM_6210 \<Rightarrow> error + SM_6210" where
  "packet_not_read st =
     (let st1 = st\<lparr>m_shitCount := m_shitCount st + 1\<rparr>
      in Inr (if length (BUFFER st1) > RFID_MAX_BUFFER_SIZE then st1\<lparr>BUFFER := []\<rparr> else st1))"

definition onDataReceived :: "QByteArray \<Rightarrow> SM_6210 \<Rightarrow> error + SM_6210" where
  "onDataReceived data st =
     (if data = [] then Inr st
      else if \<not> loaded st then Inr st
      else
        (let st1 = st\<lparr>BUFFER := BUFFER st @ data\<rparr>
         in if length (BUFFER st1) > 0 then
              or_else readAckPacket
             (or_else readEpcPacketFromScan
             (or_else readEpcPacket
             (or_else readTagIdPacket
             (or_else readRfuPacket
             (or_else readUsrPacket
             (or_else (\<lambda>s. Inr (readStdResponse s))
             (or_else (\<lambda>s. Inr (readStdResult s))
              packet_not_read))))))) st1
            else Inr st1))"

text \<open>A sequence of ingress batches.\<close>

fun ingress :: "QByteArray list \<Rightarrow> SM_6210 \<Rightarrow> error + SM_6210" where
  "ingress [] st = Inr st"
| "ingress (data # batches) st =
     (case onDataReceived data st of Inl e \<Rightarrow> Inl e | Inr st1 \<Rightarrow> ingress batches st1)"

section \<open>Notions used in the statements\<close>

text \<open>
  A frame is well-formed when its bytes, read as unsigned numbers, sum to 0 modulo 256
  and its last byte is the two's-complement negation of the sum of the bytes before it.
  \<open>frames_ok\<close>: every frame submitted to the serial manager so far is well-formed.
\<close>

definition frame_ok :: "QByteArray \<Rightarrow> bool" where
  "frame_ok f = (f \<noteq> [] \<and> sum_list (map unat f) mod 256 = 0 \<and> last f = - sum_list (butlast f))"

definition frames_ok :: "SM_6210 \<Rightarrow> bool" where
  "frames_ok st = list_all (\<lambda>w. frame_ok (fst w)) (writes (sm st))"

text \<open>
  What the serial manager returns for its \<open>k\<close>-th call, whether the port's answers to
  \<open>m\<close> submissions of a packet \<open>p\<close> from call number \<open>n\<close> on are byte counts of that
  packet (between 0 and its length; without a connection the port is not asked), the log
  entries of these submissions, and whether each of them put the whole packet on the wire.
\<close>

definition reply :: "RFID_SerialManager \<Rightarrow> nat \<Rightarrow> int" where
  "reply s k = (if connected s then port_accepts s k else - 1)"

definition counts_valid :: "RFID_SerialManager \<Rightarrow> nat \<Rightarrow> QByteArray \<Rightarrow> nat \<Rightarrow> bool" where
  "counts_valid s n p m =
     list_all (\<lambda>k. connected s \<longrightarrow> 0 \<le> port_accepts s (n + k) \<and> port_accepts s (n + k) \<le> int (length p))
       [0 ..< m]"

definition submissions :: "RFID_SerialManager \<Rightarrow> nat \<Rightarrow> QByteArray \<Rightarrow> nat \<Rightarrow> (QByteArray \<times> int) list" where
  "submissions s n p m = map (\<lambda>k. (p, reply s (n + k))) [0 ..< m]"

definition all_accepted :: "RFID_SerialManager \<Rightarrow> nat \<Rightarrow> QByteArray \<Rightarrow> nat \<Rightarrow> bool" where
  "all_accepted s n p m = list_all (\<lambda>k. reply s (n + k) = int (length p)) [0 ..< m]"

text \<open>
  The payload a write frame carries: what lies between its seven leading bytes (header,
  length, opcode, label, start address, word count) and its checksum.
\<close>

definition payload_of :: "QByteArray \<Rightarrow> QByteArray" where
  "payload_of f = butlast (drop 7 f)"

text \<open>
  Concrete states: the aggregator once a reader is set, the driver as its constructor
  leaves it on an open port at 9600 baud, and the same with a tag in the field.
\<close>

definition rfid_with_reader :: RFID where
  "rfid_with_reader = \<lparr>heap = [], m_tags = [], m_currentTag = None, m_reader = True,
     watchdog_starts = 0, rfid_signals = []\<rparr>"

definition driver_init :: "(nat \<Rightarrow> int) \<Rightarrow> SM_6210" where
  "driver_init accepts = \<lparr>BUFFER = [], m_selector = 0, m_shitCount = 0, m_userStartAddress = 0,
     reader_signals = [],
     sm = \<lparr>connected = True, baudRate = 9600, port_accepts = accepts, writes = []\<rparr>,
     rfid = rfid_with_reader\<rparr>"

definition tag_present :: "(nat \<Rightarrow> int) \<Rightarrow> SM_6210" where
  "tag_present accepts = (driver_init accepts)\<lparr>rfid := onEpcFound [0xE1] rfid_with_reader\<rparr>"

text \<open>The four frames of \<open>writeUserData\<close>, in the order it submits them.\<close>

definition user_packet :: "QByteArray \<Rightarrow> nat \<Rightarrow> QByteArray" where
  "user_packet u k =
     (if k = 0 then write_packet (mid u 0 16) USR_LABEL 0 8
      else if k = 1 then write_packet (mid u 16 32) USR_LABEL 8 8
      else if k = 2 then write_packet (mid u 32 48) USR_LABEL 16 8
      else write_packet (mid u 48 64) USR_LABEL 24 8)"

text \<open>
  No two entries of the history carry the same non-empty tag id. The two traces are
  sequences of bank events and one watchdog expiry, from the state in which a reader has
  just been set.
\<close>

definition tids_distinct :: "RFID \<Rightarrow> bool" where
  "tids_distinct r = distinct (filter (\<lambda>d. d \<noteq> []) (map (\<lambda>a. tid (heap r ! a)) (m_tags r)))"

definition duplicate_tid_trace :: RFID where
  "duplicate_tid_trace =
     onTidFound [0xB2] (onEpcFound [0xE1] (onRfuFound [0x01] (resetCurrentTag
    (onTidFound [0xB2] (onEpcFound [0xE2] (onTidFound [0xB1] (onEpcFound [0xE1]
     rfid_with_reader)))))))"

definition before_duplicate :: RFID where
  "before_duplicate =
     onEpcFound [0xE1] (onRfuFound [0x01] (resetCurrentTag
    (onTidFound [0xB2] (onEpcFound [0xE2] (onTidFound [0xB1] (onEpcFound [0xE1]
     rfid_with_reader))))))"

text \<open>
  The number of payload bytes of the frame at the earliest response header (twice its word
  count, in \<open>quint8\<close> arithmetic). \<open>ack_response\<close> is the reader's offer of a single-tag
  session. The buffers hold one byte of garbage, a frame and one byte more: an
  acknowledgement, a tag id frame of one word, a result frame and a short response frame,
  each with its checksum.
\<close>

definition frame_data_length :: "QByteArray \<Rightarrow> nat" where
  "frame_data_length b = unat (byte_ref b (header_shift HEADER_RESPONSE_CODE b + 6) * 2)"

definition ack_response :: QByteArray where
  "ack_response = [0xE0, 0x06, 0x61, 0x00, 0x00, 0x64, 0x00, 0x55]"

definition garbage_then_ack :: SM_6210 where
  "garbage_then_ack = (driver_init (\<lambda>k. 5))\<lparr>BUFFER := [0xFF] @ ack_response @ [0x11]\<rparr>"

definition garbage_then_tid :: SM_6210 where
  "garbage_then_tid = (driver_init (\<lambda>k. 5))\<lparr>BUFFER :=
     [0xFF] @ [0xE0, 0x08, 0x80, 0x00, 0x02, 0x00, 0x01, 0xAA, 0xBB, 0x30] @ [0x11]\<rparr>"

definition garbage_then_result :: SM_6210 where
  "garbage_then_result = (driver_init (\<lambda>k. 5))\<lparr>BUFFER :=
     [0xFF] @ [0xE4, 0x03, 0x01, 0x02, 0x16] @ [0x11]\<rparr>"

definition garbage_then_response :: SM_6210 where
  "garbage_then_response = (driver_init (\<lambda>k. 5))\<lparr>BUFFER :=
     [0xFF] @ [0xE0, 0x03, 0x01, 0x02, 0x1A] @ [0x11]\<rparr>"

text \<open>
  Ingress batches that fill the buffer with garbage and end with an acknowledgement frame;
  the range of the datagram index carried by the \<open>usrFound\<close> signals of a log; a user
  data frame of one word (AA BB) at a given start address.
\<close>

definition overflow_batches :: "QByteArray list" where
  "overflow_batches = replicate 16384 [0xFF] @ [0xFF # ack_response]"

definition usr_in_range :: "reader_signal list \<Rightarrow> bool" where
  "usr_in_range sigs =
     list_all (\<lambda>s. case s of usrFound u d \<Rightarrow> 0 \<le> d \<and> d < int RFID_NUM_USER_DATAGRAMS | _ \<Rightarrow> True) sigs"

definition usr_frame :: "byte \<Rightarrow> QByteArray" where
  "usr_frame startAddress =
     append_checksum [0xE0, 0x08, 0x80, 0x00, 0x03, startAddress, 0x01, 0xAA, 0xBB]"

section \<open>Properties\<close>

subsection \<open>Checksums\<close>

lemma foldl_plus_sum_list: "foldl (\<lambda>c b. c + b) a xs = a + sum_list (xs :: byte list)"
  by (induction xs arbitrary: a) (simp_all add: add.assoc)

lemma Checksum_neg_sum: "Checksum xs = - sum_list xs"
  by (simp add: Checksum_def foldl_plus_sum_list minus_eq_not_plus_1)

lemma unat_sum_list_mod: "unat (sum_list (xs :: byte list)) = sum_list (map unat xs) mod 256"
proof (induction xs)
  case Nil
  then show ?case by simp
next
  case (Cons x xs)
  have "unat (x + sum_list xs) = (unat x + unat (sum_list xs)) mod 256"
    by (simp add: unat_word_ariths)
  also have "\<dots> = (unat x + sum_list (map unat xs)) mod 256"
    by (simp add: Cons.IH mod_add_right_eq)
  finally show ?case by simp
qed

lemma frame_ok_append_checksum: "frame_ok (append_checksum xs)"
proof -
  have "sum_list (xs @ [Checksum xs]) = 0"
    by (simp add: Checksum_neg_sum)
  then have "unat (sum_list (xs @ [Checksum xs])) = 0"
    by simp
  then have "sum_list (map unat (xs @ [Checksum xs])) mod 256 = 0"
    by (simp only: unat_sum_list_mod)
  then show ?thesis
    by (simp add: frame_ok_def append_checksum_def Checksum_neg_sum)
qed

lemma sm_writeData_log:
  "sm_writeData p s = Inr (bytes, s') \<Longrightarrow> writes s' = writes s @ [(p, bytes)]"
  by (auto simp: sm_writeData_def Let_def split: if_splits sum.splits)

lemma frames_ok_send:
  "send f st = Inr st' \<Longrightarrow> frames_ok st \<Longrightarrow> frame_ok f \<Longrightarrow> frames_ok st'"
  by (auto simp: send_def frames_ok_def split: sum.splits dest!: sm_writeData_log)

lemma write_loop_frames:
  "write_loop m p (ok, s) = Inr (b, s') \<Longrightarrow> frame_ok p \<Longrightarrow>
     list_all (\<lambda>w. frame_ok (fst w)) (writes s) \<Longrightarrow> list_all (\<lambda>w. frame_ok (fst w)) (writes s')"
proof (induction m arbitrary: ok s)
  case 0
  then show ?case by simp
next
  case (Suc m)
  from Suc.prems(1) obtain bytes s1 where
    w: "sm_writeData p s = Inr (bytes, s1)"
    and l: "write_loop m p (ok \<and> bytes = int (length p), s1) = Inr (b, s')"
    by (auto split: sum.splits)
  from sm_writeData_log [OF w] Suc.prems(2,3)
  have "list_all (\<lambda>w. frame_ok (fst w)) (writes s1)"
    by simp
  with Suc.IH [OF l Suc.prems(2)] show ?case .
qed

lemma frame_ok_write_packet: "frame_ok (write_packet d label a n)"
  by (simp add: write_packet_def Let_def frame_ok_append_checksum)

lemma frames_ok_writeData:
  "writeData d label a n st = Inr (b, st') \<Longrightarrow> frames_ok st \<Longrightarrow> frames_ok st'"
  by (auto simp: writeData_def frames_ok_def split: sum.splits
      dest!: write_loop_frames [OF _ frame_ok_write_packet])

lemma frames_ok_selector [simp]: "frames_ok (st\<lparr>m_selector := x\<rparr>) = frames_ok st"
  by (simp add: frames_ok_def)

lemma frames_ok_shitCount [simp]: "frames_ok (st\<lparr>m_shitCount := x\<rparr>) = frames_ok st"
  by (simp add: frames_ok_def)

lemma frames_ok_userStart [simp]: "frames_ok (st\<lparr>m_userStartAddress := x\<rparr>) = frames_ok st"
  by (simp add: frames_ok_def)

lemma frames_ok_BUFFER [simp]: "frames_ok (st\<lparr>BUFFER := x\<rparr>) = frames_ok st"
  by (simp add: frames_ok_def)

lemma frame_ok_read_packet: "frame_ok (read_packet label a n)"
  by (simp add: read_packet_def frame_ok_append_checksum)

lemma frames_ok_reads:
  assumes "frames_ok st"
  shows "readEpc st = Inr st' \<Longrightarrow> frames_ok st'" "readTid st = Inr st' \<Longrightarrow> frames_ok st'"
    "readRfu st = Inr st' \<Longrightarrow> frames_ok st'"
  unfolding readEpc_def readTid_def readRfu_def
  by (erule frames_ok_send [OF _ assms frame_ok_read_packet])+

lemma frames_ok_readUsr:
  assumes "frames_ok st" and "readUsr st = Inr st'"
  shows "frames_ok st'"
proof -
  let ?st1 = "if m_userStartAddress st > 24 then st\<lparr>m_userStartAddress := 0\<rparr> else st"
  from assms(2) obtain st2 where
    s: "send (read_packet USR_LABEL (m_userStartAddress ?st1) 8) ?st1 = Inr st2"
    and e: "st' = st2\<lparr>m_userStartAddress := m_userStartAddress st2 + 8\<rparr>"
    by (simp add: readUsr_def Let_def split: sum.splits)
  have "frames_ok ?st1"
    using assms(1) by simp
  from frames_ok_send [OF s this frame_ok_read_packet] e show ?thesis
    by simp
qed

lemma frames_ok_scan:
  assumes "scan st = Inr st'" and "frames_ok st"
  shows "frames_ok st'"
proof (cases "m_currentTag (rfid st) = None")
  case True
  show ?thesis
  proof (cases "m_shitCount st > 10")
    case t: True
    with True assms(1)
    have "send stop_packet (st\<lparr>m_selector := 0, m_shitCount := 0\<rparr>) = Inr st'"
      by (simp add: scan_def Let_def)
    from frames_ok_send [OF this] assms(2) show ?thesis
      by (simp add: stop_packet_def frame_ok_append_checksum)
  next
    case f: False
    with True assms(1)
    have "send single_param_packet (st\<lparr>m_selector := 0\<rparr>) = Inr st'"
      by (simp add: scan_def Let_def)
    from frames_ok_send [OF this] assms(2) show ?thesis
      by (simp add: single_param_packet_def frame_ok_append_checksum)
  qed
next
  case False
  let ?r = "if m_selector st = 0 then readTid st
            else if m_selector st = 1 then readRfu st
            else if m_selector st = 2 then readUsr st
            else (case readEpc st of Inl e \<Rightarrow> Inl e | Inr st1 \<Rightarrow> Inr (st1\<lparr>m_selector := - 1\<rparr>))"
  from False assms(1) obtain st1 where r: "?r = Inr st1"
    and e: "st' = st1\<lparr>m_selector := m_selector st1 + 1\<rparr>"
    by (simp add: scan_def split: sum.splits)
  have "frames_ok st1"
  proof (cases "m_selector st = 0 \<or> m_selector st = 1 \<or> m_selector st = 2")
    case True
    with r frames_ok_reads [OF assms(2)] frames_ok_readUsr [OF assms(2)] show ?thesis
      by (auto split: if_splits)
  next
    case False
    with r obtain st0 where "readEpc st = Inr st0" and "st1 = st0\<lparr>m_selector := - 1\<rparr>"
      by (auto split: sum.splits)
    with frames_ok_reads(1) [OF assms(2)] show ?thesis
      by simp
  qed
  with e show ?thesis by simp
qed

lemma frames_ok_readAckPacket:
  assumes "readAckPacket st = Inr (ok, st')" and "frames_ok st"
  shows "frames_ok st'"
proof (cases ok)
  case True
  with assms(1) obtain b where "send ack_packet (st\<lparr>BUFFER := b\<rparr>) = Inr st'"
    by (auto simp: readAckPacket_def Let_def split: sum.splits if_splits)
  from frames_ok_send [OF this] assms(2) show ?thesis
    by (simp add: ack_packet_def frame_ok_append_checksum)
next
  case False
  with assms(1) have "st' = st"
    by (auto simp: readAckPacket_def Let_def split: sum.splits if_splits)
  with assms(2) show ?thesis by simp
qed

lemma frames_ok_writes:
  assumes "frames_ok st"
  shows "writeEpc d st = Inr (b, st') \<Longrightarrow> frames_ok st'"
    "writeRfu d st = Inr (b, st') \<Longrightarrow> frames_ok st'"
    "writeUserData d st = Inr (b, st') \<Longrightarrow> frames_ok st'"
proof -
  show "writeEpc d st = Inr (b, st') \<Longrightarrow> frames_ok st'"
    using assms frames_ok_writeData [of d EPC_LABEL 2 6 st b st']
    by (cases "m_currentTag (rfid st) = None") (auto simp: writeEpc_def)
  show "writeRfu d st = Inr (b, st') \<Longrightarrow> frames_ok st'"
    using assms frames_ok_writeData [of d RFU_LABEL 0 4 st b st']
    by (cases "m_currentTag (rfid st) = None") (auto simp: writeRfu_def)
  assume w: "writeUserData d st = Inr (b, st')"
  show "frames_ok st'"
  proof (cases "m_currentTag (rfid st) = None")
    case True
    with w assms show ?thesis by (simp add: writeUserData_def)
  next
    case False
    from False w assms show ?thesis
      apply (clarsimp simp: writeUserData_def split: sum.splits)
      apply (drule (1) frames_ok_writeData)+
      apply assumption
      done
  qed
qed

text \<open>
  Claim C1. Every request frame the driver builds (stop/reset, GET\_SINGLE\_PARAM, the
  acknowledgement of a single-tag session, every bank read and every bank write) is
  well-formed: the unsigned sum of all its bytes, checksum included, is 0 modulo 256, and
  the checksum is the two's-complement negation of the sum of the bytes before it. Every
  driver operation that transmits keeps the log of submitted frames well-formed.
\<close>

theorem transmitted_frames_sum_to_zero:
  "frame_ok stop_packet \<and> frame_ok single_param_packet \<and> frame_ok ack_packet
   \<and> frame_ok (read_packet label a n) \<and> frame_ok (write_packet d label a n)
   \<and> (frames_ok st \<longrightarrow>
        (\<forall>st'. scan st = Inr st' \<longrightarrow> frames_ok st')
        \<and> (\<forall>st'. readEpc st = Inr st' \<longrightarrow> frames_ok st')
        \<and> (\<forall>st'. readTid st = Inr st' \<longrightarrow> frames_ok st')
        \<and> (\<forall>st'. readRfu st = Inr st' \<longrightarrow> frames_ok st')
        \<and> (\<forall>st'. readUsr st = Inr st' \<longrightarrow> frames_ok st')
        \<and> (\<forall>ok st'. readAckPacket st = Inr (ok, st') \<longrightarrow> frames_ok st')
        \<and> (\<forall>ok st'. writeEpc d st = Inr (ok, st') \<longrightarrow> frames_ok st')
        \<and> (\<forall>ok st'. writeRfu d st = Inr (ok, st') \<longrightarrow> frames_ok st')
        \<and> (\<forall>ok st'. writeUserData d st = Inr (ok, st') \<longrightarrow> frames_ok st'))"
proof -
  have builders: "frame_ok stop_packet \<and> frame_ok single_param_packet \<and> frame_ok ack_packet
      \<and> frame_ok (read_packet label a n) \<and> frame_ok (write_packet d label a n)"
    by (simp add: stop_packet_def single_param_packet_def ack_packet_def frame_ok_read_packet
        frame_ok_write_packet frame_ok_append_checksum)
  have ops: "(\<forall>st'. scan st = Inr st' \<longrightarrow> frames_ok st')
        \<and> (\<forall>st'. readEpc st = Inr st' \<longrightarrow> frames_ok st')
        \<and> (\<forall>st'. readTid st = Inr st' \<longrightarrow> frames_ok st')
        \<and> (\<forall>st'. readRfu st = Inr st' \<longrightarrow> frames_ok st')
        \<and> (\<forall>st'. readUsr st = Inr st' \<longrightarrow> frames_ok st')
        \<and> (\<forall>ok st'. readAckPacket st = Inr (ok, st') \<longrightarrow> frames_ok st')
        \<and> (\<forall>ok st'. writeEpc d st = Inr (ok, st') \<longrightarrow> frames_ok st')
        \<and> (\<forall>ok st'. writeRfu d st = Inr (ok, st') \<longrightarrow> frames_ok st')
        \<and> (\<forall>ok st'. writeUserData d st = Inr (ok, st') \<longrightarrow> frames_ok st')" if "frames_ok st"
    using that
    by (intro conjI allI impI)
       (erule frames_ok_scan frames_ok_reads frames_ok_readUsr [rotated] frames_ok_readAckPacket
          frames_ok_writes [rotated], assumption?)+
  from builders ops show ?thesis
    by blast
qed

theorem transmitted_frames_sum_to_zero_witness:
  "frames_ok (driver_init (\<lambda>k. 7))
   \<and> map_sum id (\<lambda>s. (frames_ok s, writes (sm s))) (scan (driver_init (\<lambda>k. 7)))
       = Inr (True, [([0xA0, 0x05, 0x61, 0x00, 0x00, 0x64, 0x96], 7)])"
proof -
  have h: "frames_ok (driver_init (\<lambda>k. 7))"
    by (simp add: frames_ok_def driver_init_def)
  have "map_sum id (\<lambda>s. writes (sm s)) (scan (driver_init (\<lambda>k. 7)))
      = Inr [([0xA0, 0x05, 0x61, 0x00, 0x00, 0x64, 0x96], 7)]"
    by (simp add: scan_def driver_init_def rfid_with_reader_def send_def sm_writeData_def
        chopped_def single_param_packet_def append_checksum_def Checksum_def
        HEADER_START_CODE_def DEV_GET_SINGLE_PARAM_def CRP_ADD_USERCODE_def Let_def)
  then obtain s where s: "scan (driver_init (\<lambda>k. 7)) = Inr s"
    and w: "writes (sm s) = [([0xA0, 0x05, 0x61, 0x00, 0x00, 0x64, 0x96], 7)]"
    by (cases "scan (driver_init (\<lambda>k. 7))") auto
  from transmitted_frames_sum_to_zero [where st = "driver_init (\<lambda>k. 7)"] h s
  have "frames_ok s"
    by blast
  with h s w show ?thesis
    by simp
qed

subsection \<open>Writing\<close>

lemma upt_0_Suc: "[0..<Suc m] = 0 # map Suc [0..<m]"
  by (simp add: upt_conv_Cons map_Suc_upt del: upt_Suc)

lemma reply_writes_update: "reply (s\<lparr>writes := w\<rparr>) = reply s"
  by (rule ext) (simp add: reply_def)

lemma submissions_Suc: "submissions s n p (Suc m) = (p, reply s n) # submissions s (Suc n) p m"
  unfolding submissions_def by (simp only: upt_0_Suc) (simp add: o_def)

lemma all_accepted_Suc:
  "all_accepted s n p (Suc m) = (reply s n = int (length p) \<and> all_accepted s (Suc n) p m)"
  unfolding all_accepted_def by (simp only: upt_0_Suc) (simp add: list.pred_map o_def)

lemma counts_valid_Suc:
  "counts_valid s n p (Suc m) =
     ((connected s \<longrightarrow> 0 \<le> port_accepts s n \<and> port_accepts s n \<le> int (length p))
      \<and> counts_valid s (Suc n) p m)"
  unfolding counts_valid_def by (simp only: upt_0_Suc) (simp add: list.pred_map o_def)

lemma submissions_writes_update: "submissions (s\<lparr>writes := w\<rparr>) = submissions s"
  by (intro ext) (simp add: submissions_def reply_writes_update)

lemma all_accepted_writes_update: "all_accepted (s\<lparr>writes := w\<rparr>) = all_accepted s"
  by (intro ext) (simp add: all_accepted_def reply_writes_update)

lemma counts_valid_writes_update: "counts_valid (s\<lparr>writes := w\<rparr>) = counts_valid s"
  by (intro ext) (simp add: counts_valid_def)

lemma length_submissions [simp]: "length (submissions s n p m) = m"
  by (simp add: submissions_def)

lemma sm_writeData_valid:
  assumes "connected s \<longrightarrow> 0 \<le> port_accepts s (length (writes s))
             \<and> port_accepts s (length (writes s)) \<le> int (length p)"
  shows "sm_writeData p s =
     Inr (reply s (length (writes s)), s\<lparr>writes := writes s @ [(p, reply s (length (writes s)))]\<rparr>)"
  using assms by (auto simp: sm_writeData_def chopped_def reply_def Let_def)

lemma write_loop_eq:
  "counts_valid s (length (writes s)) p m \<Longrightarrow>
   write_loop m p (ok, s) =
     Inr (ok \<and> all_accepted s (length (writes s)) p m,
          s\<lparr>writes := writes s @ submissions s (length (writes s)) p m\<rparr>)"
proof (induction m arbitrary: ok s)
  case 0
  then show ?case by (simp add: all_accepted_def submissions_def)
next
  case (Suc m)
  let ?s' = "s\<lparr>writes := writes s @ [(p, reply s (length (writes s)))]\<rparr>"
  from Suc.prems have first: "connected s \<longrightarrow> 0 \<le> port_accepts s (length (writes s))
             \<and> port_accepts s (length (writes s)) \<le> int (length p)"
    and rest: "counts_valid s (Suc (length (writes s))) p m"
    by (simp_all add: counts_valid_Suc)
  have v: "counts_valid ?s' (length (writes ?s')) p m"
    using rest by (simp add: counts_valid_writes_update)
  show ?case
    by (simp add: sm_writeData_valid [OF first] Suc.IH [OF v] submissions_writes_update
        all_accepted_writes_update submissions_Suc all_accepted_Suc del: upt_Suc)
qed

lemma writeData_eq:
  "counts_valid (sm st) (length (writes (sm st))) (write_packet d label a n) 10 \<Longrightarrow>
   writeData d label a n st =
     Inr (all_accepted (sm st) (length (writes (sm st))) (write_packet d label a n) 10,
          st\<lparr>sm := (sm st)\<lparr>writes := writes (sm st) @
             submissions (sm st) (length (writes (sm st))) (write_packet d label a n) 10\<rparr>\<rparr>)"
  by (simp add: writeData_def write_loop_eq)

lemma writeUserData_eq:
  assumes "m_currentTag (rfid st) \<noteq> None"
    and "counts_valid (sm st) (length (writes (sm st))) (user_packet d 0) 10"
    and "counts_valid (sm st) (length (writes (sm st)) + 10) (user_packet d 1) 10"
    and "counts_valid (sm st) (length (writes (sm st)) + 20) (user_packet d 2) 10"
    and "counts_valid (sm st) (length (writes (sm st)) + 30) (user_packet d 3) 10"
  shows "writeUserData d st =
     Inr (all_accepted (sm st) (length (writes (sm st))) (user_packet d 0) 10
          \<and> all_accepted (sm st) (length (writes (sm st)) + 10) (user_packet d 1) 10
          \<and> all_accepted (sm st) (length (writes (sm st)) + 20) (user_packet d 2) 10
          \<and> all_accepted (sm st) (length (writes (sm st)) + 30) (user_packet d 3) 10,
          st\<lparr>sm := (sm st)\<lparr>writes := writes (sm st)
             @ submissions (sm st) (length (writes (sm st))) (user_packet d 0) 10
             @ submissions (sm st) (length (writes (sm st)) + 10) (user_packet d 1) 10
             @ submissions (sm st) (length (writes (sm st)) + 20) (user_packet d 2) 10
             @ submissions (sm st) (length (writes (sm st)) + 30) (user_packet d 3) 10\<rparr>\<rparr>)"
  using assms unfolding user_packet_def
  by (simp add: writeUserData_def writeData_eq counts_valid_writes_update
      submissions_writes_update all_accepted_writes_update add.assoc del: upt_Suc)

text \<open>
  Claim C10. Without a current tag each of \<open>writeEpc\<close>, \<open>writeRfu\<close> and
  \<open>writeUserData\<close> of the driver returns false, whatever the payload, and leaves the state
  as it is: nothing is submitted to the serial manager.
\<close>

theorem writes_refused_without_tag:
  "m_currentTag (rfid st) = None \<Longrightarrow>
     writeEpc d st = Inr (False, st) \<and> writeRfu d st = Inr (False, st)
     \<and> writeUserData d st = Inr (False, st)
     \<and> map_sum id (\<lambda>r. writes (sm (snd r))) (writeEpc d st) = Inr (writes (sm st))
     \<and> map_sum id (\<lambda>r. writes (sm (snd r))) (writeRfu d st) = Inr (writes (sm st))
     \<and> map_sum id (\<lambda>r. writes (sm (snd r))) (writeUserData d st) = Inr (writes (sm st))"
  by (simp add: writeEpc_def writeRfu_def writeUserData_def)

theorem writes_refused_without_tag_witness:
  "m_currentTag (rfid (driver_init (\<lambda>k. 10))) = None
   \<and> writeEpc [0x01, 0x02] (driver_init (\<lambda>k. 10)) = Inr (False, driver_init (\<lambda>k. 10))
   \<and> map_sum id (\<lambda>r. writes (sm (snd r))) (writeUserData [0x01, 0x02] (driver_init (\<lambda>k. 10)))
       = Inr []"
proof -
  have h: "m_currentTag (rfid (driver_init (\<lambda>k. 10))) = None"
    by (simp add: driver_init_def rfid_with_reader_def)
  have w: "writes (sm (driver_init (\<lambda>k. 10))) = []"
    by (simp add: driver_init_def)
  from writes_refused_without_tag [OF h, of "[0x01, 0x02]"] h w show ?thesis
    by simp
qed

lemma tag_present_current: "m_currentTag (rfid (tag_present acc)) = Some 0"
  by (simp add: tag_present_def onEpcFound_def new_tag_def rfid_with_reader_def
      updateTagList_def watchdog_start_def emit_rfid_def setCurrentTag_def Let_def cleanup.simps
      cleanup_step_def)

lemma tag_present_sm:
  "sm (tag_present acc) = \<lparr>connected = True, baudRate = 9600, port_accepts = acc, writes = []\<rparr>"
  by (simp add: tag_present_def driver_init_def)

lemma epc_packet_01_02:
  "write_packet [0x01, 0x02] EPC_LABEL 2 6 =
     [0xA0, 0x08, 0xAB, 0x00, 0x01, 0x02, 0x06, 0x01, 0x02, 0xA1]"
  by (simp add: write_packet_def append_checksum_def insert_byte_def Checksum_def Let_def
      EPC_LABEL_def HEADER_START_CODE_def DEV_WRITE_TAG_MW_def)

lemma constant_port_valid:
  "0 \<le> c \<Longrightarrow> c \<le> int (length p) \<Longrightarrow> counts_valid (sm (tag_present (\<lambda>k. c))) n p m"
  by (simp add: counts_valid_def tag_present_sm list_all_iff)

lemma constant_port_submissions:
  "submissions (sm (tag_present (\<lambda>k. c))) n p 10 = replicate 10 (p, c)"
  by (simp add: submissions_def tag_present_sm reply_def map_replicate_const del: upt_Suc)

lemma constant_port_accepted:
  "all_accepted (sm (tag_present (\<lambda>k. c))) n p 10 = (c = int (length p))"
  apply (auto simp: all_accepted_def tag_present_sm reply_def list_all_iff)
  apply (drule spec [of _ 0])
  apply simp
  done

text \<open>
  Claim C5 as stated fails without a current tag: on an open port that would accept all ten
  submissions of the frame in full, \<open>writeEpc\<close> submits nothing and returns false.
\<close>

theorem write_ten_times_counterexample:
  "map_sum id (\<lambda>r. (fst r, writes (sm (snd r)))) (writeEpc [0x01, 0x02] (driver_init (\<lambda>k. 10)))
     = Inr (False, [])
   \<and> counts_valid (sm (driver_init (\<lambda>k. 10))) 0 (write_packet [0x01, 0x02] EPC_LABEL 2 6) 10
   \<and> all_accepted (sm (driver_init (\<lambda>k. 10))) 0 (write_packet [0x01, 0x02] EPC_LABEL 2 6) 10"
  by (simp add: writeEpc_def driver_init_def rfid_with_reader_def all_accepted_def reply_def
      counts_valid_def epc_packet_01_02 list_all_iff)

text \<open>
  Claim C5, amended. When a tag is current and the port answers every submission with a
  byte count of the frame (between 0 and its length; without a connection the serial
  manager answers -1 itself), \<open>writeEpc\<close> and \<open>writeRfu\<close> submit their frame to the serial
  manager exactly ten times in succession and \<open>writeUserData\<close> submits each of its four
  frames ten times in succession (forty submissions); each returns true iff every one of
  its submissions was accepted in full, that is, the serial manager returned the length of
  the frame. Without a current tag nothing is submitted and the result is false.
\<close>

theorem write_ten_times:
  "(m_currentTag (rfid st) \<noteq> None \<longrightarrow>
     (let s = sm st; n = length (writes s);
          e = write_packet d EPC_LABEL 2 6; r = write_packet d RFU_LABEL 0 4
      in (counts_valid s n e 10 \<longrightarrow>
            writeEpc d st =
              Inr (all_accepted s n e 10, st\<lparr>sm := s\<lparr>writes := writes s @ submissions s n e 10\<rparr>\<rparr>))
         \<and> (counts_valid s n r 10 \<longrightarrow>
            writeRfu d st =
              Inr (all_accepted s n r 10, st\<lparr>sm := s\<lparr>writes := writes s @ submissions s n r 10\<rparr>\<rparr>))
         \<and> (counts_valid s n (user_packet d 0) 10 \<and> counts_valid s (n + 10) (user_packet d 1) 10
             \<and> counts_valid s (n + 20) (user_packet d 2) 10
             \<and> counts_valid s (n + 30) (user_packet d 3) 10 \<longrightarrow>
            writeUserData d st =
              Inr (all_accepted s n (user_packet d 0) 10
                   \<and> all_accepted s (n + 10) (user_packet d 1) 10
                   \<and> all_accepted s (n + 20) (user_packet d 2) 10
                   \<and> all_accepted s (n + 30) (user_packet d 3) 10,
                   st\<lparr>sm := s\<lparr>writes := writes s
                      @ submissions s n (user_packet d 0) 10
                      @ submissions s (n + 10) (user_packet d 1) 10
                      @ submissions s (n + 20) (user_packet d 2) 10
                      @ submissions s (n + 30) (user_packet d 3) 10\<rparr>\<rparr>))))
   \<and> (m_currentTag (rfid st) = None \<longrightarrow>
        writeEpc d st = Inr (False, st) \<and> writeRfu d st = Inr (False, st)
        \<and> writeUserData d st = Inr (False, st))"
proof (intro conjI impI)
  assume t: "m_currentTag (rfid st) \<noteq> None"
  show "let s = sm st; n = length (writes s);
          e = write_packet d EPC_LABEL 2 6; r = write_packet d RFU_LABEL 0 4
      in (counts_valid s n e 10 \<longrightarrow>
            writeEpc d st =
              Inr (all_accepted s n e 10, st\<lparr>sm := s\<lparr>writes := writes s @ submissions s n e 10\<rparr>\<rparr>))
         \<and> (counts_valid s n r 10 \<longrightarrow>
            writeRfu d st =
              Inr (all_accepted s n r 10, st\<lparr>sm := s\<lparr>writes := writes s @ submissions s n r 10\<rparr>\<rparr>))
         \<and> (counts_valid s n (user_packet d 0) 10 \<and> counts_valid s (n + 10) (user_packet d 1) 10
             \<and> counts_valid s (n + 20) (user_packet d 2) 10
             \<and> counts_valid s (n + 30) (user_packet d 3) 10 \<longrightarrow>
            writeUserData d st =
              Inr (all_accepted s n (user_packet d 0) 10
                   \<and> all_accepted s (n + 10) (user_packet d 1) 10
                   \<and> all_accepted s (n + 20) (user_packet d 2) 10
                   \<and> all_accepted s (n + 30) (user_packet d 3) 10,
                   st\<lparr>sm := s\<lparr>writes := writes s
                      @ submissions s n (user_packet d 0) 10
                      @ submissions s (n + 10) (user_packet d 1) 10
                      @ submissions s (n + 20) (user_packet d 2) 10
                      @ submissions s (n + 30) (user_packet d 3) 10\<rparr>\<rparr>))"
    unfolding Let_def
  proof (intro conjI impI)
    assume "counts_valid (sm st) (length (writes (sm st))) (write_packet d EPC_LABEL 2 6) 10"
    with t show "writeEpc d st =
        Inr (all_accepted (sm st) (length (writes (sm st))) (write_packet d EPC_LABEL 2 6) 10,
             st\<lparr>sm := (sm st)\<lparr>writes := writes (sm st) @
               submissions (sm st) (length (writes (sm st))) (write_packet d EPC_LABEL 2 6) 10\<rparr>\<rparr>)"
      by (simp add: writeEpc_def writeData_eq)
  next
    assume "counts_valid (sm st) (length (writes (sm st))) (write_packet d RFU_LABEL 0 4) 10"
    with t show "writeRfu d st =
        Inr (all_accepted (sm st) (length (writes (sm st))) (write_packet d RFU_LABEL 0 4) 10,
             st\<lparr>sm := (sm st)\<lparr>writes := writes (sm st) @
               submissions (sm st) (length (writes (sm st))) (write_packet d RFU_LABEL 0 4) 10\<rparr>\<rparr>)"
      by (simp add: writeRfu_def writeData_eq)
  next
    assume "counts_valid (sm st) (length (writes (sm st))) (user_packet d 0) 10
        \<and> counts_valid (sm st) (length (writes (sm st)) + 10) (user_packet d 1) 10
        \<and> counts_valid (sm st) (length (writes (sm st)) + 20) (user_packet d 2) 10
        \<and> counts_valid (sm st) (length (writes (sm st)) + 30) (user_packet d 3) 10"
    with t show "writeUserData d st =
        Inr (all_accepted (sm st) (length (writes (sm st))) (user_packet d 0) 10
             \<and> all_accepted (sm st) (length (writes (sm st)) + 10) (user_packet d 1) 10
             \<and> all_accepted (sm st) (length (writes (sm st)) + 20) (user_packet d 2) 10
             \<and> all_accepted (sm st) (length (writes (sm st)) + 30) (user_packet d 3) 10,
             st\<lparr>sm := (sm st)\<lparr>writes := writes (sm st)
                @ submissions (sm st) (length (writes (sm st))) (user_packet d 0) 10
                @ submissions (sm st) (length (writes (sm st)) + 10) (user_packet d 1) 10
                @ submissions (sm st) (length (writes (sm st)) + 20) (user_packet d 2) 10
                @ submissions (sm st) (length (writes (sm st)) + 30) (user_packet d 3) 10\<rparr>\<rparr>)"
      by (intro writeUserData_eq) simp_all
  qed
next
  assume "m_currentTag (rfid st) = None"
  then show "writeEpc d st = Inr (False, st)" "writeRfu d st = Inr (False, st)"
    "writeUserData d st = Inr (False, st)"
    by (simp_all add: writeEpc_def writeRfu_def writeUserData_def)
qed

theorem write_ten_times_witness:
  "m_currentTag (rfid (tag_present (\<lambda>k. 10))) \<noteq> None
   \<and> counts_valid (sm (tag_present (\<lambda>k. 10))) 0 (write_packet [0x01, 0x02] EPC_LABEL 2 6) 10
   \<and> map_sum id (\<lambda>r. (fst r, writes (sm (snd r)))) (writeEpc [0x01, 0x02] (tag_present (\<lambda>k. 10)))
       = Inr (True, replicate 10 ([0xA0, 0x08, 0xAB, 0x00, 0x01, 0x02, 0x06, 0x01, 0x02, 0xA1], 10))
   \<and> m_currentTag (rfid (driver_init (\<lambda>k. 10))) = None
   \<and> writeEpc [0x01, 0x02] (driver_init (\<lambda>k. 10)) = Inr (False, driver_init (\<lambda>k. 10))"
proof -
  let ?t = "tag_present (\<lambda>k. 10)" and ?d = "driver_init (\<lambda>k. 10)"
  let ?p = "write_packet [0x01, 0x02] EPC_LABEL 2 6"
  have h: "m_currentTag (rfid ?t) \<noteq> None"
    by (simp add: tag_present_current)
  have w: "writes (sm ?t) = []"
    by (simp add: tag_present_sm)
  have v: "counts_valid (sm ?t) 0 ?p 10"
    by (rule constant_port_valid) (simp_all add: epc_packet_01_02)
  from write_ten_times [where st = ?t and d = "[0x01, 0x02]"] h v
  have "writeEpc [0x01, 0x02] ?t =
      Inr (all_accepted (sm ?t) 0 ?p 10, ?t\<lparr>sm := (sm ?t)\<lparr>writes := submissions (sm ?t) 0 ?p 10\<rparr>\<rparr>)"
    by (simp add: Let_def w)
  then have e: "map_sum id (\<lambda>r. (fst r, writes (sm (snd r)))) (writeEpc [0x01, 0x02] ?t)
      = Inr (True, replicate 10 ([0xA0, 0x08, 0xAB, 0x00, 0x01, 0x02, 0x06, 0x01, 0x02, 0xA1], 10))"
    by (simp add: constant_port_accepted constant_port_submissions epc_packet_01_02)
  have n: "m_currentTag (rfid ?d) = None"
    by (simp add: driver_init_def rfid_with_reader_def)
  from write_ten_times [where st = ?d and d = "[0x01, 0x02]"] n
  have f: "writeEpc [0x01, 0x02] ?d = Inr (False, ?d)"
    by simp
  from h v e n f show ?thesis
    by simp
qed

lemma payload_of_write_packet: "payload_of (write_packet d label a n) = d"
  by (simp add: payload_of_def write_packet_def append_checksum_def insert_byte_def Let_def)

lemma payloads_of_submissions:
  "map (\<lambda>w. payload_of (fst w)) (submissions s k (write_packet d l x y) 10) = replicate 10 d"
  by (simp add: submissions_def payload_of_write_packet o_def map_replicate_const del: upt_Suc)

text \<open>
  Claim C3 as stated fails: with a tag current, \<open>writeEpc\<close> of the two bytes 01 02 submits
  ten frames that carry those two bytes, not twelve.
\<close>

theorem write_path_padding_counterexample:
  "map_sum id (\<lambda>r. map (\<lambda>w. payload_of (fst w)) (writes (sm (snd r))))
      (writeEpc [0x01, 0x02] (tag_present (\<lambda>k. 10)))
     = Inr (replicate 10 [0x01, 0x02])
   \<and> replicate 10 [0x01, 0x02 :: byte]
     \<noteq> replicate 10 [0x01, 0x02, 0x00, 0x00, 0x00, 0x00, 0x00, 0x00, 0x00, 0x00, 0x00, 0x00]"
proof -
  have v: "counts_valid (sm (tag_present (\<lambda>k. 10))) 0 (write_packet [0x01, 0x02] EPC_LABEL 2 6) 10"
    by (rule constant_port_valid) (simp_all add: epc_packet_01_02)
  have w: "writes (sm (tag_present (\<lambda>k. 10))) = []"
    by (simp add: tag_present_sm)
  show ?thesis
    using v by (simp add: writeEpc_def tag_present_current writeData_eq w payloads_of_submissions)
qed

lemma pad_zeroes_eq: "pad_zeroes n a = a @ replicate (n - length a) 0"
proof (induction n a rule: pad_zeroes.induct)
  case (1 n a)
  show ?case
  proof (cases "length a < n")
    case True
    then have "n - length a = Suc (n - Suc (length a))" by simp
    with True 1 show ?thesis
      by (subst pad_zeroes.simps) (simp add: replicate_app_Cons_same)
  next
    case False
    then show ?thesis by (subst pad_zeroes.simps) simp
  qed
qed

lemma new_writes_writeData:
  "counts_valid (sm st) (length (writes (sm st))) (write_packet d label a n) 10 \<Longrightarrow>
   map_sum id (\<lambda>r. map (\<lambda>w. payload_of (fst w))
                      (drop (length (writes (sm st))) (writes (sm (snd r)))))
     (writeData d label a n st) = Inr (replicate 10 d)"
  by (simp add: writeData_eq payloads_of_submissions)

text \<open>
  Claim C3, amended. The driver transmits a payload as it is given: a write frame carries
  exactly the payload, and with a tag current (and a port that answers with byte counts
  of the frame) \<open>writeEpc\<close> and \<open>writeRfu\<close> submit ten frames each carrying it unchanged.
  The zero-padding to the bank size is done by the window's handlers before they call the
  facade: a payload no longer than 12, 8 or 64 bytes reaches \<open>RFID::writeEpc\<close>,
  \<open>RFID::writeRfu\<close> or \<open>RFID::writeUserData\<close> extended with zero bytes to exactly that
  size.
\<close>

theorem padding_by_window_handlers:
  "payload_of (write_packet d label a n) = d
   \<and> (m_currentTag (rfid st) \<noteq> None
        \<and> counts_valid (sm st) (length (writes (sm st))) (write_packet d EPC_LABEL 2 6) 10 \<longrightarrow>
        map_sum id (\<lambda>r. map (\<lambda>w. payload_of (fst w))
                           (drop (length (writes (sm st))) (writes (sm (snd r)))))
          (writeEpc d st) = Inr (replicate 10 d))
   \<and> (m_currentTag (rfid st) \<noteq> None
        \<and> counts_valid (sm st) (length (writes (sm st))) (write_packet d RFU_LABEL 0 4) 10 \<longrightarrow>
        map_sum id (\<lambda>r. map (\<lambda>w. payload_of (fst w))
                           (drop (length (writes (sm st))) (writes (sm (snd r)))))
          (writeRfu d st) = Inr (replicate 10 d))
   \<and> (length d \<le> RFID_EPC_LENGTH \<longrightarrow>
        writeEpcData d st = Some (RFID_writeEpc (d @ replicate (RFID_EPC_LENGTH - length d) 0x00) st))
   \<and> (length d \<le> RFID_RFU_LENGTH \<longrightarrow>
        writeRfuData d st = Some (RFID_writeRfu (d @ replicate (RFID_RFU_LENGTH - length d) 0x00) st))
   \<and> (length d \<le> RFID_USER_LENGTH \<longrightarrow>
        MainWindow_writeUserData d st =
          Some (RFID_writeUserData (d @ replicate (RFID_USER_LENGTH - length d) 0x00) st))"
  by (simp add: payload_of_write_packet writeEpc_def writeRfu_def new_writes_writeData
      writeEpcData_def writeRfuData_def MainWindow_writeUserData_def
      pad_zeroes_eq Let_def del: upt_Suc pad_zeroes.simps)

theorem padding_by_window_handlers_witness:
  "m_currentTag (rfid (tag_present (\<lambda>k. 10))) \<noteq> None
   \<and> counts_valid (sm (tag_present (\<lambda>k. 10))) 0 (write_packet [0x01, 0x02] EPC_LABEL 2 6) 10
   \<and> length [0x01, 0x02 :: byte] \<le> RFID_EPC_LENGTH
   \<and> map_sum id (\<lambda>r. map (\<lambda>w. payload_of (fst w)) (writes (sm (snd r))))
        (writeEpc [0x01, 0x02] (tag_present (\<lambda>k. 10)))
       = Inr (replicate 10 [0x01, 0x02])
   \<and> map_option (map_sum id (\<lambda>r. map (\<lambda>w. payload_of (fst w)) (writes (sm (snd r)))))
        (writeEpcData [0x01, 0x02] (tag_present (\<lambda>k. 20)))
       = Some (Inr (replicate 10 [0x01, 0x02, 0x00, 0x00, 0x00, 0x00, 0x00, 0x00, 0x00, 0x00, 0x00, 0x00]))"
proof -
  let ?s = "tag_present (\<lambda>k. 10)" and ?t = "tag_present (\<lambda>k. 20)"
  let ?padded = "[0x01, 0x02, 0x00, 0x00, 0x00, 0x00, 0x00, 0x00, 0x00, 0x00, 0x00, 0x00] :: QByteArray"
  have hs: "m_currentTag (rfid ?s) \<noteq> None" and ht: "m_currentTag (rfid ?t) \<noteq> None"
    by (simp_all add: tag_present_current)
  have l: "length [0x01, 0x02 :: byte] \<le> RFID_EPC_LENGTH"
    by (simp add: RFID_EPC_LENGTH_def)
  have ws: "writes (sm ?s) = []" and wt: "writes (sm ?t) = []"
    by (simp_all add: tag_present_sm)
  have vs: "counts_valid (sm ?s) 0 (write_packet [0x01, 0x02] EPC_LABEL 2 6) 10"
    by (rule constant_port_valid) (simp_all add: epc_packet_01_02)
  have vt: "counts_valid (sm ?t) 0 (write_packet ?padded EPC_LABEL 2 6) 10"
    by (rule constant_port_valid)
       (simp_all add: write_packet_def append_checksum_def insert_byte_def Let_def)
  have acc: "readerAccessible ?t"
    by (simp add: readerAccessible_def loaded_def tag_present_def driver_init_def
        onEpcFound_def new_tag_def rfid_with_reader_def
        updateTagList_def watchdog_start_def emit_rfid_def setCurrentTag_def Let_def cleanup.simps
        cleanup_step_def)
  have pad: "[0x01, 0x02] @ replicate (RFID_EPC_LENGTH - length [0x01, 0x02 :: byte]) (0x00 :: byte)
      = ?padded"
    by (simp add: RFID_EPC_LENGTH_def numeral_eq_Suc)
  from padding_by_window_handlers [where d = "[0x01, 0x02]" and st = ?s] hs vs
  have e1: "map_sum id (\<lambda>r. map (\<lambda>w. payload_of (fst w)) (writes (sm (snd r))))
        (writeEpc [0x01, 0x02] ?s) = Inr (replicate 10 [0x01, 0x02])"
    by (simp add: ws)
  from padding_by_window_handlers [where d = "[0x01, 0x02]" and st = ?t] l
  have "writeEpcData [0x01, 0x02] ?t
      = Some (RFID_writeEpc ([0x01, 0x02] @ replicate (RFID_EPC_LENGTH - length [0x01, 0x02 :: byte]) 0x00) ?t)"
    by blast
  then have e2: "writeEpcData [0x01, 0x02] ?t = Some (writeEpc ?padded ?t)"
    by (simp only: pad) (simp add: RFID_writeEpc_def acc)
  from padding_by_window_handlers [where d = ?padded and st = ?t] ht vt
  have e3: "map_sum id (\<lambda>r. map (\<lambda>w. payload_of (fst w)) (writes (sm (snd r))))
        (writeEpc ?padded ?t) = Inr (replicate 10 ?padded)"
    by (simp add: wt)
  from hs vs l e1 e2 e3 show ?thesis
    by simp
qed

lemma payloads_of_user_submissions:
  "map (\<lambda>w. payload_of (fst w)) (submissions s n (user_packet d k) 10) =
     replicate 10 (if k = 0 then mid d 0 16 else if k = 1 then mid d 16 32
                   else if k = 2 then mid d 32 48 else mid d 48 64)"
  by (simp add: user_packet_def payloads_of_submissions)

lemma length_write_packet: "length (write_packet d label a n) = length d + 8"
  by (simp add: write_packet_def append_checksum_def insert_byte_def Let_def)

text \<open>
  Claim C4 fails on the code (\<open>mid(16, 32)\<close> takes 32 bytes from position 16): for the
  64-byte payload 0, 1, ..., 63 and a tag current, the ten frames of the second write carry
  the 32 bytes 16..47 and those of the third the 32 bytes 32..63, not the 16-byte
  segments 16..31 and 32..47.
\<close>

theorem writeUserData_segments_overlap:
  "map_sum id (\<lambda>r. map (\<lambda>w. payload_of (fst w)) (writes (sm (snd r))))
       (writeUserData (map of_nat [0..<64]) (tag_present (\<lambda>k. 24)))
     = Inr (replicate 10 (map of_nat [0..<16]) @ replicate 10 (map of_nat [16..<48])
            @ replicate 10 (map of_nat [32..<64]) @ replicate 10 (map of_nat [48..<64]))
   \<and> length (map of_nat [16..<48] :: QByteArray) = 32"
proof -
  let ?t = "tag_present (\<lambda>k. 24)"
  let ?u = "map of_nat [0..<64] :: QByteArray"
  have h: "m_currentTag (rfid ?t) \<noteq> None"
    by (simp add: tag_present_current)
  have w: "writes (sm ?t) = []"
    by (simp add: tag_present_sm)
  have m: "mid ?u 0 16 = map of_nat [0..<16]"
     "mid ?u 16 32 = map of_nat [16..<48]"
     "mid ?u 32 48 = map of_nat [32..<64]"
     "mid ?u 48 64 = map of_nat [48..<64]"
    by (simp_all add: mid_def take_map drop_map del: upt_Suc)
  have v: "counts_valid (sm ?t) n (user_packet ?u k) 10" for n k
    by (rule constant_port_valid)
       (simp_all add: user_packet_def length_write_packet m del: upt_Suc)
  have "writeUserData ?u ?t =
     Inr (all_accepted (sm ?t) (length (writes (sm ?t))) (user_packet ?u 0) 10
          \<and> all_accepted (sm ?t) (length (writes (sm ?t)) + 10) (user_packet ?u 1) 10
          \<and> all_accepted (sm ?t) (length (writes (sm ?t)) + 20) (user_packet ?u 2) 10
          \<and> all_accepted (sm ?t) (length (writes (sm ?t)) + 30) (user_packet ?u 3) 10,
          ?t\<lparr>sm := (sm ?t)\<lparr>writes := writes (sm ?t)
             @ submissions (sm ?t) (length (writes (sm ?t))) (user_packet ?u 0) 10
             @ submissions (sm ?t) (length (writes (sm ?t)) + 10) (user_packet ?u 1) 10
             @ submissions (sm ?t) (length (writes (sm ?t)) + 20) (user_packet ?u 2) 10
             @ submissions (sm ?t) (length (writes (sm ?t)) + 30) (user_packet ?u 3) 10\<rparr>\<rparr>)"
    by (rule writeUserData_eq [OF h v v v v])
  then show ?thesis
    by (simp add: w payloads_of_user_submissions m del: upt_Suc)
qed

subsection \<open>Aggregator\<close>

text \<open>
  What the expiry of the watchdog does when a reader is set: no current tag, the signal
  \<open>currentTagChanged\<close>, the history untouched, the timer started again.
\<close>

lemma watchdog_expiry_effect:
  "m_reader r \<Longrightarrow>
     m_currentTag (resetCurrentTag r) = None \<and> m_tags (resetCurrentTag r) = m_tags r
     \<and> heap (resetCurrentTag r) = heap r
     \<and> rfid_signals (resetCurrentTag r) = rfid_signals r @ [currentTagChanged]
     \<and> watchdog_starts (resetCurrentTag r) = Suc (watchdog_starts r)"
  by (simp add: resetCurrentTag_def watchdog_start_def emit_rfid_def setCurrentTag_def)

text \<open>
  Claim C7 fails on the code. After the bank events EPC E1, TID B1, EPC E2, TID B2, a
  watchdog expiry, RFU 01 and EPC E1 the history holds three records with pairwise
  different tag ids. The next event, TID B2, writes B2 into the first record (it matches
  the current tag by EPC) and into the current tag, the third; the cleanup removes the second
  record and, having removed an entry, steps over the one that moved into its place. The
  history is left with two different records that carry the same non-empty tag id B2.
\<close>

theorem cleanup_leaves_duplicate_tid:
  "tids_distinct before_duplicate
   \<and> duplicate_tid_trace = onTidFound [0xB2] before_duplicate
   \<and> m_tags duplicate_tid_trace = [0, 4]
   \<and> tid (heap duplicate_tid_trace ! 0) = [0xB2]
   \<and> tid (heap duplicate_tid_trace ! 4) = [0xB2]
   \<and> \<not> tids_distinct duplicate_tid_trace"
  by code_simp

text \<open>
  Claim C8 fails on the code in its last part. An EPC event for the tag that is current
  (its EPC is the same, or still empty) only updates the EPC field: \<open>updateTagList\<close> is not
  called and the watchdog is not started again, while the TID and RFU slots (and the user
  data slot) call \<open>updateTagList\<close> on the same path and start it again.
\<close>

theorem epc_event_does_not_rearm_watchdog:
  "m_currentTag (onEpcFound [0xE1] rfid_with_reader) = Some 0
   \<and> watchdog_starts (onEpcFound [0xE1] rfid_with_reader) = 1
   \<and> watchdog_starts (onEpcFound [0xE1] (onEpcFound [0xE1] rfid_with_reader)) = 1
   \<and> watchdog_starts (onEpcFound [0xE1] (onTidFound [0xB1] rfid_with_reader)) = 1
   \<and> watchdog_starts (onTidFound [0xB1] (onTidFound [0xB1] rfid_with_reader)) = 2
   \<and> watchdog_starts (onRfuFound [0x01] (onRfuFound [0x01] rfid_with_reader)) = 2"
  by code_simp

subsection \<open>Packet interpretation\<close>

lemma header_shift_le: "header_shift h b \<le> length b"
  by (induction b) simp_all

lemma header_shift_notin: "h \<notin> set b \<Longrightarrow> header_shift h b = length b"
  by (induction b) auto

lemma header_shift_garbage: "h \<notin> set g \<Longrightarrow> header_shift h (g @ h # rest) = length g"
  by (induction g) auto

lemma remove_bytes_front: "0 < n \<Longrightarrow> b \<noteq> [] \<Longrightarrow> remove_bytes 0 (int n) b = drop n b"
  by (simp add: remove_bytes_def)

lemma read_bytes_Some: "read_bytes b p n = Some d \<Longrightarrow> length d = n \<and> (0 < n \<longrightarrow> p + n \<le> length b)"
proof (induction n arbitrary: p d)
  case 0
  then show ?case by simp
next
  case (Suc n)
  then show ?case
    by (fastforce simp: byte_at_def split: if_splits option.splits)
qed

lemma readInformationPacket_success:
  assumes "readInformationPacket label singleTag verify st = Inr ((True, d, a, n), st')"
  shows "st' = st\<lparr>BUFFER := drop (header_shift HEADER_RESPONSE_CODE (BUFFER st) + frame_data_length (BUFFER st) + 7) (BUFFER st)\<rparr>"
    and "length d = frame_data_length (BUFFER st)"
    and "a = sint (byte_ref (BUFFER st) (header_shift HEADER_RESPONSE_CODE (BUFFER st) + 5))"
proof -
  let ?b = "BUFFER st"
  let ?i = "header_shift HEADER_RESPONSE_CODE ?b"
  let ?n = "frame_data_length ?b"
  from assms have ne: "?i + 1 \<le> length ?b"
    by (simp add: readInformationPacket_def Let_def split: if_splits)
  then have nonempty: "?b \<noteq> []" by auto
  from assms ne obtain sz where sz: "byte_at ?b (?i + 1) = Some sz" and big: "length ?b > ?i + unat sz"
    by (auto simp: readInformationPacket_def Let_def split: if_splits option.splits)
  from assms ne sz big have rb: "read_bytes ?b (?i + 7) ?n = Some d"
    and st': "st' = st\<lparr>BUFFER := remove_bytes 0 (int (?i + ?n + 7)) ?b\<rparr>"
    and a: "a = sint (byte_ref ?b (?i + 5))"
    by (auto simp: readInformationPacket_def Let_def frame_data_length_def
        split: if_splits option.splits)
  from rb have len: "length d = ?n" and inb: "0 < ?n \<longrightarrow> ?i + 7 + ?n \<le> length ?b"
    using read_bytes_Some by blast+
  show "length d = ?n" by (rule len)
  show "a = sint (byte_ref ?b (?i + 5))" by (rule a)
  have "remove_bytes 0 (int (?i + ?n + 7)) ?b = drop (?i + ?n + 7) ?b"
    using nonempty by (intro remove_bytes_front) simp_all
  with st' show "st' = st\<lparr>BUFFER := drop (?i + ?n + 7) ?b\<rparr>"
    by (simp only:)
qed

lemma readAckPacket_success:
  assumes "readAckPacket st = Inr (True, st')"
  shows "BUFFER st' = take (header_shift HEADER_RESPONSE_CODE (BUFFER st)) (BUFFER st)
                      @ drop (header_shift HEADER_RESPONSE_CODE (BUFFER st) + 8) (BUFFER st)"
    and "header_shift HEADER_RESPONSE_CODE (BUFFER st) + 8 \<le> length (BUFFER st)"
proof -
  let ?b = "BUFFER st"
  let ?i = "header_shift HEADER_RESPONSE_CODE ?b"
  from assms show le: "?i + 8 \<le> length ?b"
    by (simp add: readAckPacket_def Let_def split: if_splits)
  from assms le have "BUFFER st' = remove_bytes ?i 8 ?b"
    by (auto simp: readAckPacket_def Let_def send_def split: if_splits sum.splits)
  with le show "BUFFER st' = take ?i ?b @ drop (?i + 8) ?b"
    by (simp add: remove_bytes_def)
qed

text \<open>
  What a bank reader that succeeds leaves of the buffer: everything behind the last
  payload byte of the frame, which starts with the frame's checksum byte.
\<close>

lemma bank_reader_success:
  assumes "dec \<in> {readEpcPacketFromScan, readEpcPacket, readTagIdPacket, readRfuPacket, readUsrPacket}"
    and "dec st = Inr (True, st')"
  shows "BUFFER st' = drop (header_shift HEADER_RESPONSE_CODE (BUFFER st)
                            + frame_data_length (BUFFER st) + 7) (BUFFER st)"
proof -
  have i: "readInformationPacket label s v st = Inr ((True, d, a, n), st1) \<Longrightarrow>
      BUFFER st1 = drop (header_shift HEADER_RESPONSE_CODE (BUFFER st)
                         + frame_data_length (BUFFER st) + 7) (BUFFER st)" for label s v d a n st1
    using readInformationPacket_success(1) [of label s v st d a n st1] by simp
  from assms show ?thesis
    by (auto simp: readEpcPacketFromScan_def readEpcPacket_def readTagIdPacket_def
        readRfuPacket_def readUsrPacket_def emit_reader_def Let_def
        split: sum.splits prod.splits if_splits dest!: i)
qed

text \<open>
  Claim C2 fails on the code, at every reader. With one byte of garbage before a frame and
  one byte (11) after it, a successful decode should leave the byte 11 alone. The
  acknowledgement reader leaves the garbage byte as well (it removes the eight bytes of
  the frame, from the header on). The tag id reader, like every bank reader, removes one
  byte too few and leaves the frame's checksum. The readers of stray result and response
  frames remove as many bytes as the frame's length byte says, counted from the header,
  and leave the frame's last two bytes.
\<close>

theorem decoders_leave_frame_bytes:
  "BUFFER garbage_then_ack = [0xFF, 0xE0, 0x06, 0x61, 0x00, 0x00, 0x64, 0x00, 0x55, 0x11]
   \<and> map_sum id (\<lambda>r. (fst r, BUFFER (snd r))) (readAckPacket garbage_then_ack)
       = Inr (True, [0xFF, 0x11])
   \<and> BUFFER garbage_then_tid
       = [0xFF, 0xE0, 0x08, 0x80, 0x00, 0x02, 0x00, 0x01, 0xAA, 0xBB, 0x30, 0x11]
   \<and> map_sum id (\<lambda>r. (fst r, BUFFER (snd r))) (readTagIdPacket garbage_then_tid)
       = Inr (True, [0x30, 0x11])
   \<and> BUFFER garbage_then_result = [0xFF, 0xE4, 0x03, 0x01, 0x02, 0x16, 0x11]
   \<and> map_prod id BUFFER (readStdResult garbage_then_result) = (True, [0x02, 0x16, 0x11])
   \<and> BUFFER garbage_then_response = [0xFF, 0xE0, 0x03, 0x01, 0x02, 0x1A, 0x11]
   \<and> map_prod id BUFFER (readStdResponse garbage_then_response) = (True, [0x02, 0x1A, 0x11])"
  by code_simp

subsection \<open>Ingress\<close>

lemma loaded_iff: "loaded st = (connected (sm st) \<and> baudRate (sm st) = 9600)"
  by (simp add: loaded_def)

lemma readAckPacket_no_header:
  "HEADER_RESPONSE_CODE \<notin> set (BUFFER st) \<Longrightarrow> readAckPacket st = Inr (False, st)"
  by (simp add: readAckPacket_def header_shift_notin Let_def)

lemma readInformationPacket_no_header:
  "HEADER_RESPONSE_CODE \<notin> set (BUFFER st) \<Longrightarrow>
     readInformationPacket label s v st = Inr ((False, [], 0, 0), st)"
  by (simp add: readInformationPacket_def header_shift_notin Let_def)

lemma readStdResponse_no_header:
  "HEADER_RESPONSE_CODE \<notin> set (BUFFER st) \<Longrightarrow> readStdResponse st = (False, st)"
  by (simp add: readStdResponse_def header_shift_notin Let_def)

lemma readStdResult_no_header:
  "HEADER_RESULT_CODE \<notin> set (BUFFER st) \<Longrightarrow> readStdResult st = (False, st)"
  by (simp add: readStdResult_def header_shift_notin Let_def)

lemma no_header_batch:
  assumes "loaded st" and "data \<noteq> []"
    and "HEADER_RESPONSE_CODE \<notin> set (BUFFER st @ data)"
    and "HEADER_RESULT_CODE \<notin> set (BUFFER st @ data)"
  shows "onDataReceived data st = packet_not_read (st\<lparr>BUFFER := BUFFER st @ data\<rparr>)"
proof -
  let ?s = "st\<lparr>BUFFER := BUFFER st @ data\<rparr>"
  have e0: "HEADER_RESPONSE_CODE \<notin> set (BUFFER ?s)" and e4: "HEADER_RESULT_CODE \<notin> set (BUFFER ?s)"
    using assms(3,4) by simp_all
  have chain: "or_else readAckPacket
             (or_else readEpcPacketFromScan
             (or_else readEpcPacket
             (or_else readTagIdPacket
             (or_else readRfuPacket
             (or_else readUsrPacket
             (or_else (\<lambda>s. Inr (readStdResponse s))
             (or_else (\<lambda>s. Inr (readStdResult s))
              packet_not_read))))))) ?s = packet_not_read ?s"
    by (simp only: or_else_def readAckPacket_no_header [OF e0] readStdResponse_no_header [OF e0]
        readStdResult_no_header [OF e4] readEpcPacketFromScan_def readEpcPacket_def
        readTagIdPacket_def readRfuPacket_def readUsrPacket_def
        readInformationPacket_no_header [OF e0] sum.case prod.case if_False bool.case)
  from assms(1,2) show ?thesis
    by (simp add: onDataReceived_def Let_def chain)
qed

lemma garbage_batches:
  assumes "c \<noteq> HEADER_RESPONSE_CODE" and "c \<noteq> HEADER_RESULT_CODE"
  shows "loaded st \<Longrightarrow> HEADER_RESPONSE_CODE \<notin> set (BUFFER st) \<Longrightarrow>
     HEADER_RESULT_CODE \<notin> set (BUFFER st) \<Longrightarrow> length (BUFFER st) + n \<le> RFID_MAX_BUFFER_SIZE \<Longrightarrow>
     ingress (replicate n [c]) st =
       Inr (st\<lparr>BUFFER := BUFFER st @ replicate n c, m_shitCount := m_shitCount st + of_nat n\<rparr>)"
proof (induction n arbitrary: st)
  case 0
  then show ?case by simp
next
  case (Suc n)
  let ?s = "st\<lparr>BUFFER := BUFFER st @ [c], m_shitCount := m_shitCount st + 1\<rparr>"
  have "onDataReceived [c] st = packet_not_read (st\<lparr>BUFFER := BUFFER st @ [c]\<rparr>)"
    using Suc.prems assms by (intro no_header_batch) auto
  also have "\<dots> = Inr ?s"
    using Suc.prems(4) by (simp add: packet_not_read_def Let_def)
  finally have step: "onDataReceived [c] st = Inr ?s" .
  have l: "loaded ?s"
    using Suc.prems(1) by (simp add: loaded_iff)
  have "ingress (replicate n [c]) ?s =
      Inr (?s\<lparr>BUFFER := BUFFER ?s @ replicate n c, m_shitCount := m_shitCount ?s + of_nat n\<rparr>)"
    using Suc.prems(2,3,4) assms by (intro Suc.IH [OF l]) simp_all
  then show ?case
    by (simp add: step replicate_app_Cons_same add.assoc)
qed

lemma ingress_append:
  "ingress (xs @ ys) st = (case ingress xs st of Inl e \<Rightarrow> Inl e | Inr s \<Rightarrow> ingress ys s)"
  by (induction xs arbitrary: st) (auto split: sum.splits)

lemma readAckPacket_garbage:
  assumes "HEADER_RESPONSE_CODE \<notin> set g" and "BUFFER st = g @ ack_response @ rest"
  shows "readAckPacket st =
     (case send ack_packet (st\<lparr>BUFFER := g @ rest\<rparr>) of
        Inl e \<Rightarrow> Inl e
      | Inr st1 \<Rightarrow> Inr (True, st1))"
  using assms(1)
  by (simp add: readAckPacket_def assms(2) Let_def header_shift_garbage byte_ref_def nth_append
      mid_def remove_bytes_def ack_response_def Checksum_def HEADER_RESPONSE_CODE_def
      DEV_GET_SINGLE_PARAM_def CRP_ADD_USERCODE_def)

text \<open>
  Claim C6 fails on the code. 16384 batches of one garbage byte fill the buffer to the cap
  (no reader matches, and 16384 is not more than the cap); the next batch is one more
  garbage byte followed by an acknowledgement frame. The acknowledgement reader succeeds
  and \<open>onDataReceived\<close> returns at once, before the size check: the batch ends with 16385
  bytes in the buffer.
\<close>

theorem buffer_exceeds_cap_after_ack:
  "map_sum id (\<lambda>s. length (BUFFER s)) (ingress overflow_batches (driver_init (\<lambda>k. 5))) = Inr 16385
   \<and> RFID_MAX_BUFFER_SIZE < 16385"
proof -
  let ?d = "driver_init (\<lambda>k. 5)"
  let ?s = "?d\<lparr>BUFFER := BUFFER ?d @ replicate 16384 0xFF, m_shitCount := m_shitCount ?d + of_nat 16384\<rparr>"
  have g: "ingress (replicate 16384 [0xFF]) ?d = Inr ?s"
    by (intro garbage_batches)
       (simp_all add: HEADER_RESPONSE_CODE_def HEADER_RESULT_CODE_def driver_init_def loaded_iff
          RFID_MAX_BUFFER_SIZE_def)
  let ?s1 = "?s\<lparr>BUFFER := BUFFER ?s @ 0xFF # ack_response\<rparr>"
  have n: "(16385::nat) = Suc 16384"
    by simp
  have r: "replicate 16385 (0xFF :: byte) = 0xFF # replicate 16384 0xFF"
    by (simp only: n replicate_Suc)
  have b: "BUFFER ?s1 = replicate 16385 0xFF @ ack_response @ []"
    by (simp only: r) (simp add: driver_init_def replicate_app_Cons_same)
  let ?s2 = "?s1\<lparr>BUFFER := replicate 16385 0xFF @ []\<rparr>"
  have sent: "send ack_packet ?s2
      = Inr (?s2\<lparr>sm := (sm ?s2)\<lparr>writes := writes (sm ?s2) @ [(ack_packet, 5)]\<rparr>\<rparr>)"
    by (simp add: send_def sm_writeData_def chopped_def driver_init_def ack_packet_def
        append_checksum_def Let_def)
  have "readAckPacket ?s1 =
      (case send ack_packet ?s2 of Inl e \<Rightarrow> Inl e | Inr st1 \<Rightarrow> Inr (True, st1))"
    by (rule readAckPacket_garbage [OF _ b]) (simp add: HEADER_RESPONSE_CODE_def)
  then have "onDataReceived (0xFF # ack_response) ?s
      = Inr (?s2\<lparr>sm := (sm ?s2)\<lparr>writes := writes (sm ?s2) @ [(ack_packet, 5)]\<rparr>\<rparr>)"
    unfolding sent
    by (simp add: onDataReceived_def Let_def or_else_def loaded_iff driver_init_def)
  then show ?thesis
    by (simp add: overflow_batches_def ingress_append g RFID_MAX_BUFFER_SIZE_def)
qed

lemma usr_in_range_append:
  "usr_in_range (xs @ [s]) =
     (usr_in_range xs \<and> (case s of usrFound u d \<Rightarrow> 0 \<le> d \<and> d < int RFID_NUM_USER_DATAGRAMS | _ \<Rightarrow> True))"
  by (simp add: usr_in_range_def)

lemma readInformationPacket_state:
  "readInformationPacket label s v st = Inr (i, st') \<Longrightarrow>
     reader_signals st' = reader_signals st \<and> rfid st' = rfid st \<and> sm st' = sm st"
  by (auto simp: readInformationPacket_def Let_def split: if_splits option.splits)

lemma readInformationPacket_error:
  "readInformationPacket label s v st = Inl e \<Longrightarrow> e = AtOutOfRange"
  by (auto simp: readInformationPacket_def Let_def split: if_splits option.splits)

lemma bank_reader_range:
  assumes "dec \<in> {readEpcPacketFromScan, readEpcPacket, readTagIdPacket, readRfuPacket}"
    and "usr_in_range (reader_signals st)"
  shows "case dec st of Inl e \<Rightarrow> e \<noteq> DatagramAssert
         | Inr (b, st') \<Rightarrow> usr_in_range (reader_signals st')"
  using assms
  by (auto simp: readEpcPacketFromScan_def readEpcPacket_def readTagIdPacket_def
      readRfuPacket_def emit_reader_def usr_in_range_append
      split: sum.splits prod.splits if_splits
      dest!: readInformationPacket_state readInformationPacket_error)

lemma onUsrFound_in_range:
  "0 \<le> d \<Longrightarrow> d < int RFID_NUM_USER_DATAGRAMS \<Longrightarrow> onUsrFound u d r \<noteq> Inl e"
  by (simp add: onUsrFound_def Let_def split: prod.splits)

lemma readUsrPacket_range:
  assumes "usr_in_range (reader_signals st)"
  shows "case readUsrPacket st of Inl e \<Rightarrow> e \<noteq> DatagramAssert
         | Inr (b, st') \<Rightarrow> usr_in_range (reader_signals st')"
proof (cases "readInformationPacket USR_LABEL False True st")
  case (Inl e)
  then show ?thesis
    by (auto simp: readUsrPacket_def dest: readInformationPacket_error)
next
  case (Inr x)
  obtain ok u a n st1 where x: "x = ((ok, u, a, n), st1)"
    by (cases x) auto
  from Inr x have s: "reader_signals st1 = reader_signals st"
    using readInformationPacket_state by blast
  show ?thesis
  proof (cases "ok \<and> \<not> (c_div a 8 > int RFID_NUM_USER_DATAGRAMS - 1 \<or> c_div a 8 < 0)")
    case True
    then have r: "0 \<le> c_div a 8" "c_div a 8 < int RFID_NUM_USER_DATAGRAMS"
      by auto
    from onUsrFound_in_range [OF r] obtain r' where "onUsrFound u (c_div a 8) (rfid st1) = Inr r'"
      by (cases "onUsrFound u (c_div a 8) (rfid st1)") auto
    with Inr x True r s assms show ?thesis
      by (simp add: readUsrPacket_def Let_def emit_reader_def usr_in_range_append)
  next
    case False
    with Inr x s assms show ?thesis
      by (auto simp: readUsrPacket_def Let_def)
  qed
qed

lemma or_else_range:
  assumes "\<And>s. P s \<Longrightarrow> (case dec s of Inl e \<Rightarrow> e \<noteq> DatagramAssert | Inr (b, s') \<Rightarrow> P s')"
    and "\<And>s. P s \<Longrightarrow> (case rest s of Inl e \<Rightarrow> e \<noteq> DatagramAssert | Inr s' \<Rightarrow> P s')"
    and "P st"
  shows "case or_else dec rest st of Inl e \<Rightarrow> e \<noteq> DatagramAssert | Inr s' \<Rightarrow> P s'"
proof (cases "dec st")
  case (Inl e)
  with assms(1) [OF assms(3)] show ?thesis
    by (simp add: or_else_def)
next
  case (Inr x)
  obtain b s1 where x: "x = (b, s1)" by (cases x)
  with Inr assms(1) [OF assms(3)] have p: "P s1" by simp
  show ?thesis
  proof (cases b)
    case True
    with Inr x p show ?thesis by (simp add: or_else_def)
  next
    case False
    with Inr x assms(2) [OF p] show ?thesis by (simp add: or_else_def)
  qed
qed

lemma onDataReceived_range:
  assumes "usr_in_range (reader_signals st)"
  shows "case onDataReceived data st of Inl e \<Rightarrow> e \<noteq> DatagramAssert
         | Inr st' \<Rightarrow> usr_in_range (reader_signals st')"
proof -
  let ?P = "\<lambda>s. usr_in_range (reader_signals s)"
  have ack: "?P s \<Longrightarrow> (case readAckPacket s of Inl e \<Rightarrow> e \<noteq> DatagramAssert | Inr (b, s') \<Rightarrow> ?P s')" for s
    by (auto simp: readAckPacket_def Let_def send_def sm_writeData_def chopped_def
        split: sum.splits if_splits)
  have resp: "?P s \<Longrightarrow> (case Inr (readStdResponse s) of Inl e \<Rightarrow> e \<noteq> DatagramAssert | Inr (b, s') \<Rightarrow> ?P s')" for s
    by (simp add: readStdResponse_def Let_def)
  have res: "?P s \<Longrightarrow> (case Inr (readStdResult s) of Inl e \<Rightarrow> e \<noteq> DatagramAssert | Inr (b, s') \<Rightarrow> ?P s')" for s
    by (simp add: readStdResult_def Let_def)
  have nr: "?P s \<Longrightarrow> (case packet_not_read s of Inl e \<Rightarrow> e \<noteq> DatagramAssert | Inr s' \<Rightarrow> ?P s')" for s
    by (simp add: packet_not_read_def Let_def)
  have br: "dec \<in> {readEpcPacketFromScan, readEpcPacket, readTagIdPacket, readRfuPacket} \<Longrightarrow> ?P s
      \<Longrightarrow> (case dec s of Inl e \<Rightarrow> e \<noteq> DatagramAssert | Inr (b, s') \<Rightarrow> ?P s')" for dec s
    by (rule bank_reader_range)
  have chain: "?P s \<Longrightarrow> (case
             or_else readAckPacket
             (or_else readEpcPacketFromScan
             (or_else readEpcPacket
             (or_else readTagIdPacket
             (or_else readRfuPacket
             (or_else readUsrPacket
             (or_else (\<lambda>s. Inr (readStdResponse s))
             (or_else (\<lambda>s. Inr (readStdResult s))
              packet_not_read))))))) s of Inl e \<Rightarrow> e \<noteq> DatagramAssert | Inr s' \<Rightarrow> ?P s')" for s
    by (intro or_else_range [where P = ?P] ack resp res nr br readUsrPacket_range) simp_all
  show ?thesis
    using assms chain [of "st\<lparr>BUFFER := BUFFER st @ data\<rparr>"]
    by (simp add: onDataReceived_def Let_def)
qed

lemma ingress_range:
  "usr_in_range (reader_signals st) \<Longrightarrow>
     (case ingress batches st of Inl e \<Rightarrow> e \<noteq> DatagramAssert
      | Inr st' \<Rightarrow> usr_in_range (reader_signals st'))"
proof (induction batches arbitrary: st)
  case Nil
  then show ?case by simp
next
  case (Cons data batches)
  from onDataReceived_range [OF Cons.prems, of data] show ?case
    by (cases "onDataReceived data st") (simp_all add: Cons.IH)
qed

lemma readUsrPacket_emits:
  assumes "readUsrPacket st = Inr (True, st')"
  shows "\<exists>u. reader_signals st' = reader_signals st @
           [usrFound u (c_div (sint (byte_ref (BUFFER st)
                                 (header_shift HEADER_RESPONSE_CODE (BUFFER st) + 5))) 8)]"
proof -
  from assms obtain u a n st1 r where
    i: "readInformationPacket USR_LABEL False True st = Inr ((True, u, a, n), st1)"
    and s: "st' = (emit_reader (usrFound u (c_div a 8)) st1)\<lparr>rfid := r\<rparr>"
    by (auto simp: readUsrPacket_def Let_def split: sum.splits prod.splits if_splits)
  from readInformationPacket_success(3) [OF i] readInformationPacket_state [OF i] s
  show ?thesis
    by (simp add: emit_reader_def)
qed

lemma readUsrPacket_discards:
  assumes "readInformationPacket USR_LABEL False True st = Inr ((True, u, a, n), st1)"
    and "\<not> (0 \<le> c_div a 8 \<and> c_div a 8 < int RFID_NUM_USER_DATAGRAMS)"
  shows "readUsrPacket st = Inr (False, st1)" "rfid st1 = rfid st"
    "reader_signals st1 = reader_signals st"
  using assms readInformationPacket_state [OF assms(1)]
  by (auto simp: readUsrPacket_def Let_def)

text \<open>
  Claim C9. For every sequence of ingress batches, if every \<open>usrFound\<close> signal emitted so
  far carries a datagram index in [0, 4) then so does every one emitted afterwards, and
  the assertion of \<open>onUsrFound\<close> on its index never fails, so the access to the tag's
  array of user datagrams is in bounds. The index of an emitted signal is the received
  start address byte divided by 8; when that is out of range \<open>readUsrPacket\<close> returns
  false without a signal and without touching the aggregator.
\<close>

theorem user_datagram_in_range:
  "(usr_in_range (reader_signals st) \<longrightarrow>
      ingress batches st \<noteq> Inl DatagramAssert
      \<and> (\<forall>st'. ingress batches st = Inr st' \<longrightarrow> usr_in_range (reader_signals st')))
   \<and> (readUsrPacket st = Inr (True, st2) \<longrightarrow>
        (\<exists>u. reader_signals st2 = reader_signals st @
           [usrFound u (c_div (sint (byte_ref (BUFFER st)
                                 (header_shift HEADER_RESPONSE_CODE (BUFFER st) + 5))) 8)]))
   \<and> (readInformationPacket USR_LABEL False True st = Inr ((True, u, a, n), st1)
        \<and> \<not> (0 \<le> c_div a 8 \<and> c_div a 8 < int RFID_NUM_USER_DATAGRAMS) \<longrightarrow>
        readUsrPacket st = Inr (False, st1) \<and> rfid st1 = rfid st
        \<and> reader_signals st1 = reader_signals st)"
proof (intro conjI impI)
  assume p: "usr_in_range (reader_signals st)"
  from ingress_range [OF p, of batches] show "ingress batches st \<noteq> Inl DatagramAssert"
    by (cases "ingress batches st") auto
  from ingress_range [OF p, of batches]
  show "\<forall>st'. ingress batches st = Inr st' \<longrightarrow> usr_in_range (reader_signals st')"
    by (cases "ingress batches st") auto
next
  assume "readUsrPacket st = Inr (True, st2)"
  then show "\<exists>u. reader_signals st2 = reader_signals st @
           [usrFound u (c_div (sint (byte_ref (BUFFER st)
                                 (header_shift HEADER_RESPONSE_CODE (BUFFER st) + 5))) 8)]"
    by (rule readUsrPacket_emits)
next
  assume a: "readInformationPacket USR_LABEL False True st = Inr ((True, u, a, n), st1)
        \<and> \<not> (0 \<le> c_div a 8 \<and> c_div a 8 < int RFID_NUM_USER_DATAGRAMS)"
  then show "readUsrPacket st = Inr (False, st1)" "rfid st1 = rfid st"
    "reader_signals st1 = reader_signals st"
    using readUsrPacket_discards by blast+
qed

theorem user_datagram_in_range_witness:
  "usr_in_range (reader_signals (driver_init (\<lambda>k. 5)))
   \<and> ingress [usr_frame 0x10] (driver_init (\<lambda>k. 5)) \<noteq> Inl DatagramAssert
   \<and> map_sum id reader_signals (ingress [usr_frame 0x10] (driver_init (\<lambda>k. 5)))
       = Inr [usrFound [0xAA, 0xBB] 2]
   \<and> usr_in_range [usrFound [0xAA, 0xBB] 2]
   \<and> map_sum id (\<lambda>s. (reader_signals s, m_tags (rfid s)))
        (ingress [usr_frame 0x20] (driver_init (\<lambda>k. 5))) = Inr ([], [])"
proof -
  let ?d = "driver_init (\<lambda>k. 5)"
  have h: "usr_in_range (reader_signals ?d)"
    by (simp add: usr_in_range_def driver_init_def)
  have e: "map_sum id reader_signals (ingress [usr_frame 0x10] ?d) = Inr [usrFound [0xAA, 0xBB] 2]"
    by code_simp
  then obtain s where s: "ingress [usr_frame 0x10] ?d = Inr s"
    and r: "reader_signals s = [usrFound [0xAA, 0xBB] 2]"
    by (cases "ingress [usr_frame 0x10] ?d") auto
  have d: "map_sum id (\<lambda>s. (reader_signals s, m_tags (rfid s)))
        (ingress [usr_frame 0x20] ?d) = Inr ([], [])"
    by code_simp
  from user_datagram_in_range [where st = ?d and batches = "[usr_frame 0x10]"] h s r
  have "ingress [usr_frame 0x10] ?d \<noteq> Inl DatagramAssert \<and> usr_in_range [usrFound [0xAA, 0xBB] 2]"
    by auto
  with h e d show ?thesis
    by simp
qed

end
